theory Spec2Isabelle
  imports Main "HOL-Library.Word"
begin

section \<open>Python and library primitives that mupdf.py calls\<close>

text \<open>
  The script is glue around the Python standard library, PyMuPDF (\<open>fitz\<close>) and Pillow.
  The pure helpers it calls are written out here as the standard library computes them
  (\<open>posixpath\<close>, \<open>str\<close>, \<open>str.lower\<close>, \<open>base64.b64encode\<close>); the collaborators
  whose results depend on file contents or codecs are parameters of the model (the record
  \<open>env\<close> below).

  Strings are byte strings: a Python \<open>str\<close> is modelled by its UTF-8 bytes. \<open>lower\<close>
  changes the letters \<open>A\<close>..\<open>Z\<close> only. Python's \<open>str.lower\<close> also maps some code
  points outside ASCII, but never onto a string that holds a letter of \<open>webp\<close>, \<open>jpeg\<close>,
  \<open>jpg\<close>, \<open>png\<close> or \<open>base64\<close>, so every comparison of the format dispatch reads the
  same.
\<close>

type_synonym byte = "8 word"
type_synonym bytes = "byte list"
type_synonym path = string

subsection \<open>\<open>str.lower\<close>\<close>

definition lower_char :: "char \<Rightarrow> char" where
  "lower_char c =
     (case map_of (zip ''ABCDEFGHIJKLMNOPQRSTUVWXYZ'' ''abcdefghijklmnopqrstuvwxyz'') c of
        Some d \<Rightarrow> d
      | None \<Rightarrow> c)"

definition lower :: "string \<Rightarrow> string" where
  "lower s = map lower_char s"

subsection \<open>\<open>str\<close> of a non-negative integer\<close>

definition digit_char :: "nat \<Rightarrow> char" where
  "digit_char d = ''0123456789'' ! d"

fun str :: "nat \<Rightarrow> string" where
  "str n = (if n < 10 then [digit_char n] else str (n div 10) @ [digit_char (n mod 10)])"

declare str.simps [simp del]

subsection \<open>\<open>os.path\<close> (posixpath)\<close>

text \<open>\<open>s.rfind(c)\<close>: the last index of \<open>c\<close> in \<open>s\<close>, or \<open>-1\<close>.\<close>

definition rfind :: "string \<Rightarrow> char \<Rightarrow> int" where
  "rfind s c =
     (if c \<in> set s then int (length s) - 1 - int (length (takeWhile (\<lambda>x. x \<noteq> c) (rev s)))
      else - 1)"

text \<open>\<open>basename(p)\<close>: \<open>i = p.rfind('/') + 1; return p[i:]\<close>.\<close>

definition basename :: "path \<Rightarrow> string" where
  "basename p = drop (nat (rfind p CHR ''/'' + 1)) p"

text \<open>
  \<open>splitext(p)\<close>, as \<open>genericpath._splitext\<close> computes it: the extension starts at the
  last dot of the last path component, unless only dots come before it in that component.
\<close>

definition splitext :: "path \<Rightarrow> string \<times> string" where
  "splitext p =
     (let sepIndex = rfind p CHR ''/'';
          dotIndex = rfind p CHR ''.''
      in if dotIndex > sepIndex \<and>
            list_ex (\<lambda>c. c \<noteq> CHR ''.'')
              (take (nat (dotIndex - (sepIndex + 1))) (drop (nat (sepIndex + 1)) p))
         then (take (nat dotIndex) p, drop (nat dotIndex) p)
         else (p, []))"

text \<open>\<open>os.path.join(a, b)\<close> with two arguments.\<close>

definition path_join :: "path \<Rightarrow> string \<Rightarrow> path" where
  "path_join a b =
     (if b \<noteq> [] \<and> hd b = CHR ''/'' then b
      else if a = [] \<or> last a = CHR ''/'' then a @ b
      else a @ ''/'' @ b)"

subsection \<open>\<open>base64.b64encode\<close>\<close>

definition b64_alphabet :: string where
  "b64_alphabet = ''ABCDEFGHIJKLMNOPQRSTUVWXYZabcdefghijklmnopqrstuvwxyz0123456789+/''"

definition b64_symbol :: "nat \<Rightarrow> byte" where
  "b64_symbol n = of_char (b64_alphabet ! n)"

definition b64_pad :: byte where
  "b64_pad = of_char CHR ''=''"

text \<open>
  Three bytes are read as one 24-bit number and written as four 6-bit symbols; a last
  group of one or two bytes is filled with zero bits and padded with \<open>=\<close>.
\<close>

fun b64encode :: "bytes \<Rightarrow> bytes" where
  "b64encode [] = []"
| "b64encode [a] =
     (let n = unat a * 65536
      in [b64_symbol (n div 262144), b64_symbol (n div 4096 mod 64), b64_pad, b64_pad])"
| "b64encode [a, b] =
     (let n = unat a * 65536 + unat b * 256
      in [b64_symbol (n div 262144), b64_symbol (n div 4096 mod 64),
          b64_symbol (n div 64 mod 64), b64_pad])"
| "b64encode (a # b # c # rest) =
     (let n = unat a * 65536 + unat b * 256 + unat c
      in [b64_symbol (n div 262144), b64_symbol (n div 4096 mod 64),
          b64_symbol (n div 64 mod 64), b64_symbol (n mod 64)]) @ b64encode rest"



section \<open>The environment and the observable state\<close>

text \<open>
  The errors of the specification's taxonomy, and \<open>PoolError\<close> for the \<open>ValueError\<close>
  that \<open>ProcessPoolExecutor\<close> raises on a worker count that is not positive.
\<close>

datatype error =
  DocumentOpenError | PageIndexError | RenderError | EncodeError | IOError | PoolError

text \<open>
  A rasterized page (\<open>pix\<close>), which is also the Pillow image built from it:
  \<open>Image.frombytes("RGB", [pix.width, pix.height], pix.samples)\<close> keeps exactly these
  three values.
\<close>

record pixmap =
  width :: nat
  height :: nat
  samples :: bytes

text \<open>
  The keyword arguments of the three \<open>img.save\<close> calls: \<open>format="WEBP", quality, method\<close>;
  \<open>format="JPEG", quality, optimize\<close>; \<open>format="PNG", optimize, compress_level\<close>.
\<close>

datatype save_args = SaveWEBP int nat | SaveJPEG int bool | SavePNG bool nat

text \<open>
  The collaborators, as functions of their inputs. \<open>'p\<close> is whatever a page of a
  document is to the PDF library.
  \<^item> \<open>fitz_parse\<close>: the document that \<open>fitz.open\<close> reads from a file's bytes, or \<open>None\<close>
    when it refuses them;
  \<^item> \<open>fitz_render\<close>: \<open>page.get_pixmap(matrix)\<close> at \<open>zoom_x = zoom_y = dpi / 72\<close>, a
    function of the page and of \<open>dpi\<close>; \<open>None\<close> when rasterization fails;
  \<^item> \<open>pil_encode\<close>: the bytes an \<open>img.save\<close> call produces; \<open>None\<close> when the codec fails;
  \<^item> \<open>can_write\<close>: whether the operating system lets a file be opened for writing at
    a path (its directory exists, permissions, space), constant over a run;
  \<^item> \<open>can_mkdir\<close>: whether \<open>os.makedirs\<close> succeeds on a path.
\<close>

record 'p env =
  fitz_parse :: "bytes \<Rightarrow> 'p list option"
  fitz_render :: "'p \<Rightarrow> int \<Rightarrow> pixmap option"
  pil_encode :: "pixmap \<Rightarrow> save_args \<Rightarrow> bytes option"
  can_write :: "path \<Rightarrow> bool"
  can_mkdir :: "path \<Rightarrow> bool"

text \<open>
  What a run does to the outside, in the order it does it. \<open>Call i\<close> marks an entry of
  \<open>process_page\<close> with page index \<open>i\<close> and \<open>Submit i\<close> an \<open>executor.submit\<close> of it; the
  two record which indices the driver hands over. \<open>FileWrite p data\<close> is a write that
  was completed: the file at \<open>p\<close> holds \<open>data\<close>. \<open>FileEmptied p\<close> is an \<open>img.save\<close> that
  raised after it had emptied the file that was at \<open>p\<close>. The three \<open>Log\<close> events are the three
  \<open>print\<close> calls of \<open>pdf_to_jpeg\<close>: the page count and mode, the 1-based page number
  with the page count, and the total; the durations they print are readings of the clock
  and are left out.
\<close>

datatype event =
  Mkdir path
| DocOpen nat path
| DocClose nat
| FileWrite path bytes
| FileEmptied path
| Call nat
| Submit nat
| LogStart nat bool
| LogPage nat nat
| LogTotal

text \<open>
  The file system (regular files by path, and the directories that exist), the number of
  the next document handle, and the events so far.
\<close>

record world =
  files :: "path \<rightharpoonup> bytes"
  dirs :: "path set"
  next_handle :: nat
  trace :: "event list"

text \<open>
  A statement of the script either returns a value or raises; both leave a world behind.
\<close>

type_synonym 'a prog = "world \<Rightarrow> world \<times> (error + 'a)"

definition return_ok :: "'a \<Rightarrow> 'a prog" where
  "return_ok x = (\<lambda>w. (w, Inr x))"

definition raise :: "error \<Rightarrow> 'a prog" where
  "raise e = (\<lambda>w. (w, Inl e))"

definition and_then :: "'a prog \<Rightarrow> ('a \<Rightarrow> 'b prog) \<Rightarrow> 'b prog" where
  "and_then m f = (\<lambda>w. case m w of (w', Inl e) \<Rightarrow> (w', Inl e) | (w', Inr x) \<Rightarrow> f x w')"

definition emit :: "event \<Rightarrow> unit prog" where
  "emit e = (\<lambda>w. (w\<lparr>trace := trace w @ [e]\<rparr>, Inr ()))"

subsection \<open>PyMuPDF\<close>

text \<open>
  \<open>fitz.open(p)\<close>: a fresh handle on the document read from the file at \<open>p\<close>, as the
  file is at that moment; it raises when there is no file or the library refuses it.
\<close>

definition fitz_open :: "'p env \<Rightarrow> path \<Rightarrow> (nat \<times> 'p list) prog" where
  "fitz_open E p = (\<lambda>w.
     case files w p of
       None \<Rightarrow> (w, Inl DocumentOpenError)
     | Some content \<Rightarrow>
         (case fitz_parse E content of
            None \<Rightarrow> (w, Inl DocumentOpenError)
          | Some doc \<Rightarrow>
              (w\<lparr>next_handle := Suc (next_handle w),
                 trace := trace w @ [DocOpen (next_handle w) p]\<rparr>,
               Inr (next_handle w, doc))))"

definition doc_close :: "nat \<Rightarrow> unit prog" where
  "doc_close h = emit (DocClose h)"

text \<open>
  \<open>doc.load_page(n)\<close>. Page numbers are natural numbers: the driver produces
  \<open>range(page_count)\<close> only, and the negative numbers that the library counts from the
  end are outside the model.
\<close>

definition load_page :: "'p list \<Rightarrow> nat \<Rightarrow> 'p prog" where
  "load_page doc n = (if n < length doc then return_ok (doc ! n) else raise PageIndexError)"

definition get_pixmap :: "'p env \<Rightarrow> 'p \<Rightarrow> int \<Rightarrow> pixmap prog" where
  "get_pixmap E page dpi =
     (case fitz_render E page dpi of None \<Rightarrow> raise RenderError | Some pix \<Rightarrow> return_ok pix)"

subsection \<open>Pillow and the file system\<close>

definition img_encode :: "'p env \<Rightarrow> pixmap \<Rightarrow> save_args \<Rightarrow> bytes prog" where
  "img_encode E img args =
     (case pil_encode E img args of None \<Rightarrow> raise EncodeError | Some data \<Rightarrow> return_ok data)"

text \<open>
  \<open>with open(p, "wb") as f: f.write(data)\<close>, of the base64 branch: the bytes are in memory
  before the file is opened.
\<close>

definition write_file :: "'p env \<Rightarrow> path \<Rightarrow> bytes \<Rightarrow> unit prog" where
  "write_file E p data = (\<lambda>w.
     if can_write E p
     then (w\<lparr>files := (files w)(p \<mapsto> data), trace := trace w @ [FileWrite p data]\<rparr>, Inr ())
     else (w, Inl IOError))"

text \<open>
  \<open>img.save(p, format=..., ...)\<close> to a path, as \<open>Image.save\<close> of Pillow does it:
  \<^item> \<open>created = not os.path.exists(p)\<close>, then \<open>open(p, "w+b")\<close>, which creates the file or
    empties the one that is there, or raises and changes nothing (\<open>created\<close> is read as:
    there was no file at \<open>p\<close>, since a directory at \<open>p\<close> cannot be opened);
  \<^item> the encoder of the format runs on the open file; when it succeeds the file holds
    the encoded bytes;
  \<^item> when it raises, Pillow closes the file, removes it if the \<open>open\<close> had created it,
    and raises again: a file that was there before the call stays, and is empty.

  The bytes that a failing encoder may have written before it raised are taken to be none.
  The three formats are taken to be installed (Pillow looks the format up before it opens
  the file).
\<close>

definition open_truncate :: "'p env \<Rightarrow> path \<Rightarrow> bool prog" where
  "open_truncate E p = (\<lambda>w.
     if can_write E p
     then (w\<lparr>files := (files w)(p \<mapsto> [])\<rparr>, Inr (files w p = None))
     else (w, Inl IOError))"

definition remove_file :: "path \<Rightarrow> unit prog" where
  "remove_file p = (\<lambda>w. (w\<lparr>files := (files w)(p := None)\<rparr>, Inr ()))"

definition img_save :: "'p env \<Rightarrow> pixmap \<Rightarrow> path \<Rightarrow> save_args \<Rightarrow> unit prog" where
  "img_save E img p args =
     and_then (open_truncate E p) (\<lambda>created. (\<lambda>w.
       case pil_encode E img args of
         Some data \<Rightarrow>
           (w\<lparr>files := (files w)(p \<mapsto> data), trace := trace w @ [FileWrite p data]\<rparr>, Inr ())
       | None \<Rightarrow>
           and_then (if created then remove_file p else emit (FileEmptied p))
             (\<lambda>_. raise EncodeError) w))"

text \<open>
  \<open>os.path.exists(p)\<close> holds of a directory and of a regular file. \<open>os.makedirs(p)\<close>
  creates \<open>p\<close> (the parents it creates on the way are not listed) or raises.
\<close>

definition path_exists :: "path \<Rightarrow> bool prog" where
  "path_exists p = (\<lambda>w. (w, Inr (p \<in> dirs w \<or> files w p \<noteq> None)))"

definition makedirs :: "'p env \<Rightarrow> path \<Rightarrow> unit prog" where
  "makedirs E p = (\<lambda>w.
     if can_mkdir E p
     then (w\<lparr>dirs := insert p (dirs w), trace := trace w @ [Mkdir p]\<rparr>, Inr ())
     else (w, Inl IOError))"

section \<open>mupdf.py\<close>

subsection \<open>\<open>process_page\<close>\<close>

text \<open>
  The statements of the function in their order. The function returns the pair of the page
  number and the time the page took; the model returns the page number. \<open>Call\<close> marks
  the entry and does nothing else.
\<close>

definition process_page ::
  "'p env \<Rightarrow> path \<Rightarrow> nat \<Rightarrow> path \<Rightarrow> int \<Rightarrow> string \<Rightarrow> int \<Rightarrow> nat prog" where
  "process_page E pdf_path page_num output_dir dpi img_format quality =
     and_then (emit (Call page_num)) (\<lambda>_.
     and_then (fitz_open E pdf_path) (\<lambda>(h, doc).
     and_then (load_page doc page_num) (\<lambda>page.
     and_then (get_pixmap E page dpi) (\<lambda>pix.
       let img = pix;
           file_name = fst (splitext (basename pdf_path));
           output_image =
             path_join output_dir (file_name @ ''_'' @ str (page_num + 1) @ ''.'' @ img_format)
       in
     and_then
       (if lower img_format = ''webp'' then
          img_save E img output_image (SaveWEBP quality 0)
        else if lower img_format = ''jpeg'' \<or> lower img_format = ''jpg'' then
          img_save E img output_image (SaveJPEG quality False)
        else if lower img_format = ''png'' then
          img_save E img output_image (SavePNG False 1)
        else if lower img_format = ''base64'' then
          and_then (img_encode E img (SaveWEBP quality 0)) (\<lambda>buffer.
            let b64_str = b64encode buffer;
                b64_output = fst (splitext output_image) @ ''.b64''
            in write_file E b64_output b64_str)
        else
          img_save E img output_image (SaveWEBP quality 0)) (\<lambda>_.
     and_then (doc_close h) (\<lambda>_.
     return_ok page_num))))))"

subsection \<open>\<open>pdf_to_jpeg\<close>\<close>

text \<open>
  The sequential branch: \<open>for page_num in range(page_count)\<close>, each page processed and
  then logged; the first error ends the loop.
\<close>

fun sequential_loop :: "(nat \<Rightarrow> nat prog) \<Rightarrow> nat \<Rightarrow> nat list \<Rightarrow> unit prog" where
  "sequential_loop task page_count [] = return_ok ()"
| "sequential_loop task page_count (i # rest) =
     and_then (task i) (\<lambda>page_num.
     and_then (emit (LogPage (page_num + 1) page_count)) (\<lambda>_.
     sequential_loop task page_count rest))"

text \<open>
  The parallel branch, at the granularity of tasks. \<open>ProcessPoolExecutor(max_workers)\<close>
  refuses a worker count that is not positive. The list comprehension submits one task
  per index of \<open>range(page_count)\<close>. The pool decides the order in which the tasks
  complete: \<open>sched\<close> is its sequence of choices, each picking one of the tasks still
  pending, so that every order of completion is some \<open>sched\<close>. \<open>as_completed\<close> hands the
  futures over in that order; \<open>future.result()\<close> raises the task's error in the driver,
  and leaving the \<open>with\<close> block then waits for the tasks still pending, which run without
  being logged.
\<close>

definition pool_create :: "int option \<Rightarrow> unit prog" where
  "pool_create max_workers =
     (case max_workers of
        None \<Rightarrow> return_ok ()
      | Some n \<Rightarrow> if n \<le> 0 then raise PoolError else return_ok ())"

definition submit_all :: "nat list \<Rightarrow> nat list prog" where
  "submit_all indices = (\<lambda>w. (w\<lparr>trace := trace w @ map Submit indices\<rparr>, Inr indices))"

fun completion_order :: "nat list \<Rightarrow> 'a list \<Rightarrow> 'a list" where
  "completion_order sched [] = []"
| "completion_order [] pending = pending"
| "completion_order (k # sched) pending =
     (let j = k mod length pending
      in pending ! j # completion_order sched (take j pending @ drop (Suc j) pending))"

fun as_completed_loop ::
  "(nat \<Rightarrow> nat prog) \<Rightarrow> nat \<Rightarrow> error option \<Rightarrow> nat list \<Rightarrow> unit prog" where
  "as_completed_loop task page_count raised [] =
     (case raised of None \<Rightarrow> return_ok () | Some e \<Rightarrow> raise e)"
| "as_completed_loop task page_count raised (i # rest) = (\<lambda>w.
     case task i w of
       (w', Inl e) \<Rightarrow>
         as_completed_loop task page_count
           (Some (case raised of None \<Rightarrow> e | Some e0 \<Rightarrow> e0)) rest w'
     | (w', Inr page_num) \<Rightarrow>
         (case raised of
            None \<Rightarrow>
              and_then (emit (LogPage (page_num + 1) page_count))
                (\<lambda>_. as_completed_loop task page_count None rest) w'
          | Some e0 \<Rightarrow> as_completed_loop task page_count (Some e0) rest w'))"

definition pdf_to_jpeg ::
  "'p env \<Rightarrow> nat list \<Rightarrow> path \<Rightarrow> path \<Rightarrow> int \<Rightarrow> bool \<Rightarrow> int option \<Rightarrow> string \<Rightarrow> int
     \<Rightarrow> unit prog" where
  "pdf_to_jpeg E sched pdf_path output_dir dpi parallel max_workers img_format quality =
     and_then (path_exists output_dir) (\<lambda>exists.
     and_then (if \<not> exists then makedirs E output_dir else return_ok ()) (\<lambda>_.
     and_then (fitz_open E pdf_path) (\<lambda>(h, doc).
       let page_count = length doc in
     and_then (doc_close h) (\<lambda>_.
     and_then (emit (LogStart page_count parallel)) (\<lambda>_.
     and_then
       (if parallel then
          and_then (pool_create max_workers) (\<lambda>_.
          and_then (submit_all [0..<page_count]) (\<lambda>futures.
          as_completed_loop
            (\<lambda>i. process_page E pdf_path i output_dir dpi img_format quality)
            page_count None (completion_order sched futures)))
        else
          sequential_loop
            (\<lambda>i. process_page E pdf_path i output_dir dpi img_format quality)
            page_count [0..<page_count]) (\<lambda>_.
     emit LogTotal))))))"

section \<open>Definitions used to state the properties\<close>

text \<open>What \<open>os.path.join(a, b)\<close> puts before a relative \<open>b\<close>.\<close>

definition join_prefix :: "path \<Rightarrow> path" where
  "join_prefix a = (if a = [] \<or> last a = CHR ''/'' then a else a @ ''/'')"

text \<open>The path \<open><output_dir>/<pdf-stem>_<page_num + 1>.<ext>\<close>.\<close>

definition named_output :: "path \<Rightarrow> path \<Rightarrow> nat \<Rightarrow> string \<Rightarrow> path" where
  "named_output output_dir pdf_path page_num ext =
     path_join output_dir
       (fst (splitext (basename pdf_path)) @ ''_'' @ str (page_num + 1) @ ''.'' @ ext)"

text \<open>The path a page is written to: the \<open>.b64\<close> file of the base64 branch, and else
  the image file named after the format as the caller spelt it.\<close>

definition written_path :: "path \<Rightarrow> path \<Rightarrow> string \<Rightarrow> nat \<Rightarrow> path" where
  "written_path pdf_path output_dir img_format page_num =
     named_output output_dir pdf_path page_num
       (if lower img_format = ''base64'' then ''b64'' else img_format)"

text \<open>The \<open>img.save\<close> arguments of the branches that save to a path.\<close>

definition save_args_for :: "string \<Rightarrow> int \<Rightarrow> save_args" where
  "save_args_for img_format quality =
     (if lower img_format = ''jpeg'' \<or> lower img_format = ''jpg'' then SaveJPEG quality False
      else if lower img_format = ''png'' then SavePNG False 1
      else SaveWEBP quality 0)"

text \<open>What the save branch of \<open>process_page\<close> comes to: the bytes it writes, or its error.\<close>

definition write_outcome :: "'p env \<Rightarrow> pixmap \<Rightarrow> path \<Rightarrow> string \<Rightarrow> int \<Rightarrow> error + bytes" where
  "write_outcome E img p img_format quality =
     (if lower img_format = ''base64'' then
        (case pil_encode E img (SaveWEBP quality 0) of
           None \<Rightarrow> Inl EncodeError
         | Some buffer \<Rightarrow> if can_write E p then Inr (b64encode buffer) else Inl IOError)
      else if \<not> can_write E p then Inl IOError
      else (case pil_encode E img (save_args_for img_format quality) of
              None \<Rightarrow> Inl EncodeError
            | Some data \<Rightarrow> Inr data))"

text \<open>
  Whether a save branch that raised \<open>e\<close> has left the file at \<open>p\<close> empty: the encoder of an
  \<open>img.save\<close> to a path raised, and there was a file at \<open>p\<close> before.
\<close>

definition failed_save_empties :: "(path \<rightharpoonup> bytes) \<Rightarrow> path \<Rightarrow> string \<Rightarrow> error \<Rightarrow> bool" where
  "failed_save_empties fs p img_format e \<longleftrightarrow>
     e = EncodeError \<and> lower img_format \<noteq> ''base64'' \<and> fs p \<noteq> None"

text \<open>What a whole call of \<open>process_page\<close> comes to, given the files it starts from.\<close>

definition page_outcome ::
  "'p env \<Rightarrow> (path \<rightharpoonup> bytes) \<Rightarrow> path \<Rightarrow> nat \<Rightarrow> path \<Rightarrow> int \<Rightarrow> string \<Rightarrow> int \<Rightarrow> error + bytes" where
  "page_outcome E fs pdf_path page_num output_dir dpi img_format quality =
     (case fs pdf_path of
        None \<Rightarrow> Inl DocumentOpenError
      | Some content \<Rightarrow>
          (case fitz_parse E content of
             None \<Rightarrow> Inl DocumentOpenError
           | Some doc \<Rightarrow>
               if \<not> page_num < length doc then Inl PageIndexError
               else (case fitz_render E (doc ! page_num) dpi of
                       None \<Rightarrow> Inl RenderError
                     | Some pix \<Rightarrow>
                         write_outcome E pix
                           (written_path pdf_path output_dir img_format page_num)
                           img_format quality)))"

text \<open>The \<open>if\<close>/\<open>elif\<close> chain of \<open>process_page\<close>, by name.\<close>

definition save_branch ::
  "'p env \<Rightarrow> pixmap \<Rightarrow> path \<Rightarrow> string \<Rightarrow> int \<Rightarrow> unit prog" where
  "save_branch E img output_image img_format quality =
     (if lower img_format = ''webp'' then
        img_save E img output_image (SaveWEBP quality 0)
      else if lower img_format = ''jpeg'' \<or> lower img_format = ''jpg'' then
        img_save E img output_image (SaveJPEG quality False)
      else if lower img_format = ''png'' then
        img_save E img output_image (SavePNG False 1)
      else if lower img_format = ''base64'' then
        and_then (img_encode E img (SaveWEBP quality 0)) (\<lambda>buffer.
          let b64_str = b64encode buffer;
              b64_output = fst (splitext output_image) @ ''.b64''
          in write_file E b64_output b64_str)
      else
        img_save E img output_image (SaveWEBP quality 0))"

subsection \<open>A sample environment\<close>

text \<open>
  The scenario of the specification: a three-page \<open>sample.pdf\<close> and no output directory
  yet; \<open>empty.pdf\<close> is a document without pages. A third content is a document of one
  page. A page is a number; its raster is one pixel holding that number; the codecs
  prefix the pixels with a letter for the format and a byte for the quality or the
  compression level. Files may be written below \<open>out/\<close> only.
\<close>

definition sample_env :: "nat env" where
  "sample_env =
     \<lparr>fitz_parse = (\<lambda>content.
        if content = [37, 80, 68, 70] then Some [0, 1, 2]
        else if content = [37, 80, 68, 70, 48] then Some []
        else if content = [37, 80, 68, 70, 49] then Some [7]
        else None),
      fitz_render = (\<lambda>page dpi.
        if 0 < dpi then Some \<lparr>width = 1, height = 1, samples = [of_nat page, 0, 0]\<rparr> else None),
      pil_encode = (\<lambda>img args.
        case args of
          SaveWEBP q m \<Rightarrow> if m = 0 then Some (87 # of_int q # samples img) else None
        | SaveJPEG q opt \<Rightarrow> Some (74 # of_int q # samples img)
        | SavePNG opt lvl \<Rightarrow> Some (80 # of_nat lvl # samples img)),
      can_write = (\<lambda>p. take 4 p = ''out/''),
      can_mkdir = (\<lambda>p. p \<noteq> [])\<rparr>"

definition sample_world :: world where
  "sample_world =
     \<lparr>files = [''sample.pdf'' \<mapsto> [37, 80, 68, 70], ''empty.pdf'' \<mapsto> [37, 80, 68, 70, 48]],
      dirs = {}, next_handle = 0, trace = []\<rparr>"



subsection \<open>Reading the trace\<close>

text \<open>The events that a run adds to the trace.\<close>

definition new_events :: "world \<Rightarrow> world \<Rightarrow> event list" where
  "new_events w w' = drop (length (trace w)) (trace w')"

text \<open>The files written, the handles opened and closed, the page indices handed to
  \<open>process_page\<close> and to the pool, and the page numbers logged, each in order.\<close>

fun file_writes :: "event list \<Rightarrow> (path \<times> bytes) list" where
  "file_writes [] = []"
| "file_writes (FileWrite p data # evs) = (p, data) # file_writes evs"
| "file_writes (_ # evs) = file_writes evs"

fun doc_opens :: "event list \<Rightarrow> nat list" where
  "doc_opens [] = []"
| "doc_opens (DocOpen h p # evs) = h # doc_opens evs"
| "doc_opens (_ # evs) = doc_opens evs"

fun doc_closes :: "event list \<Rightarrow> nat list" where
  "doc_closes [] = []"
| "doc_closes (DocClose h # evs) = h # doc_closes evs"
| "doc_closes (_ # evs) = doc_closes evs"

fun calls :: "event list \<Rightarrow> nat list" where
  "calls [] = []"
| "calls (Call i # evs) = i # calls evs"
| "calls (_ # evs) = calls evs"

fun submits :: "event list \<Rightarrow> nat list" where
  "submits [] = []"
| "submits (Submit i # evs) = i # submits evs"
| "submits (_ # evs) = submits evs"

subsection \<open>The parts of \<open>pdf_to_jpeg\<close>, by name\<close>

text \<open>The two branches with the final \<open>print\<close>, for a page count \<open>n\<close>.\<close>

definition run_pages ::
  "'p env \<Rightarrow> nat list \<Rightarrow> path \<Rightarrow> path \<Rightarrow> int \<Rightarrow> bool \<Rightarrow> int option \<Rightarrow> string \<Rightarrow> int \<Rightarrow> nat
     \<Rightarrow> unit prog" where
  "run_pages E sched pdf_path output_dir dpi parallel max_workers img_format quality page_count =
     and_then
       (if parallel then
          and_then (pool_create max_workers) (\<lambda>_.
          and_then (submit_all [0..<page_count]) (\<lambda>futures.
          as_completed_loop
            (\<lambda>i. process_page E pdf_path i output_dir dpi img_format quality)
            page_count None (completion_order sched futures)))
        else
          sequential_loop
            (\<lambda>i. process_page E pdf_path i output_dir dpi img_format quality)
            page_count [0..<page_count]) (\<lambda>_.
     emit LogTotal)"

text \<open>Everything after the output directory: the probe of the page count and the pages.\<close>

definition probe_and_run ::
  "'p env \<Rightarrow> nat list \<Rightarrow> path \<Rightarrow> path \<Rightarrow> int \<Rightarrow> bool \<Rightarrow> int option \<Rightarrow> string \<Rightarrow> int
     \<Rightarrow> unit prog" where
  "probe_and_run E sched pdf_path output_dir dpi parallel max_workers img_format quality =
     and_then (fitz_open E pdf_path) (\<lambda>(h, doc).
     and_then (doc_close h) (\<lambda>_.
     and_then (emit (LogStart (length doc) parallel)) (\<lambda>_.
     run_pages E sched pdf_path output_dir dpi parallel max_workers img_format quality
       (length doc))))"

text \<open>The page count that the probe reads off the file at \<open>pdf_path\<close> (0 when it cannot be
  opened).\<close>

definition probed_page_count :: "'p env \<Rightarrow> world \<Rightarrow> path \<Rightarrow> nat" where
  "probed_page_count E w pdf_path =
     (case files w pdf_path of
        None \<Rightarrow> 0
      | Some content \<Rightarrow> (case fitz_parse E content of None \<Rightarrow> 0 | Some doc \<Rightarrow> length doc))"

subsection \<open>Effects of the pages, in order\<close>

text \<open>What a trace does to files, and its per-page log lines, in the order they occur.\<close>

fun page_effects :: "event list \<Rightarrow> event list" where
  "page_effects [] = []"
| "page_effects (FileWrite p data # evs) = FileWrite p data # page_effects evs"
| "page_effects (FileEmptied p # evs) = FileEmptied p # page_effects evs"
| "page_effects (LogPage k n # evs) = LogPage k n # page_effects evs"
| "page_effects (_ # evs) = page_effects evs"

text \<open>The order in which the pages are processed: ascending, or as the pool completes
  them.\<close>

definition page_order :: "bool \<Rightarrow> nat list \<Rightarrow> nat \<Rightarrow> nat list" where
  "page_order parallel sched page_count =
     (if parallel then completion_order sched [0..<page_count] else [0..<page_count])"

text \<open>
  A stretch of trace in which pages \<open>0\<close>, \<open>1\<close>, ... are processed one after the other:
  \<open>process_page\<close> is entered for the first \<open>k\<close> page indices in ascending order, nothing
  is submitted to a pool, and the file writes and log lines are those of the first
  \<open>length ds\<close> pages, page by page, each page's file written before its log line and
  before anything of the next page. \<open>ds\<close> are the bytes written; page \<open>k - 1\<close> may have
  raised (then \<open>k = length ds + 1\<close>), and \<open>emptied\<close> tells whether it has left its file
  empty, which then is the last thing done to a file.
\<close>

definition in_page_order ::
  "(nat \<Rightarrow> path) \<Rightarrow> nat \<Rightarrow> event list \<Rightarrow> nat \<Rightarrow> bytes list \<Rightarrow> bool \<Rightarrow> bool" where
  "in_page_order name page_count evs k ds emptied \<longleftrightarrow>
     length ds \<le> k \<and> k \<le> Suc (length ds) \<and> k \<le> page_count \<and>
     (emptied \<longrightarrow> k = Suc (length ds)) \<and>
     calls evs = [0..<k] \<and> submits evs = [] \<and>
     page_effects evs =
       concat (map (\<lambda>i. [FileWrite (name i) (ds ! i), LogPage (Suc i) page_count])
         [0..<length ds]) @
       (if emptied then [FileEmptied (name (length ds))] else [])"

subsection \<open>Files after a run\<close>

text \<open>The state of the files after a list of distinct pages has been processed.\<close>

definition pages_written ::
  "'p env \<Rightarrow> path \<Rightarrow> path \<Rightarrow> int \<Rightarrow> string \<Rightarrow> int \<Rightarrow> nat list
     \<Rightarrow> (path \<rightharpoonup> bytes) \<Rightarrow> (path \<rightharpoonup> bytes) \<Rightarrow> bool" where
  "pages_written E pdf_path output_dir dpi img_format quality pages fs fs' \<longleftrightarrow>
     fs' pdf_path = fs pdf_path \<and>
     (\<forall>i\<in>set pages. \<exists>data.
        page_outcome E fs pdf_path i output_dir dpi img_format quality = Inr data \<and>
        fs' (written_path pdf_path output_dir img_format i) = Some data) \<and>
     (\<forall>p. fs p \<noteq> None \<longrightarrow> fs' p \<noteq> None) \<and>
     (\<forall>p. p \<notin> written_path pdf_path output_dir img_format ` set pages \<longrightarrow> fs' p = fs p)"

text \<open>Every page of a list succeeds on these files, and its file already holds what it
  writes.\<close>

definition already_written ::
  "'p env \<Rightarrow> path \<Rightarrow> path \<Rightarrow> int \<Rightarrow> string \<Rightarrow> int \<Rightarrow> nat list \<Rightarrow> (path \<rightharpoonup> bytes) \<Rightarrow> bool" where
  "already_written E pdf_path output_dir dpi img_format quality pages fs \<longleftrightarrow>
     (\<forall>i\<in>set pages. \<exists>data.
        page_outcome E fs pdf_path i output_dir dpi img_format quality = Inr data \<and>
        fs (written_path pdf_path output_dir img_format i) = Some data)"

text \<open>
  A state in which a one-page PDF lies inside the output directory \<open>out\<close>, in a
  subdirectory named like the start of a page file.
\<close>

definition clash_world :: world where
  "clash_world =
     \<lparr>files = [''out/s_1.q/s.pdf'' \<mapsto> [37, 80, 68, 70, 49]],
      dirs = {''out'', ''out/s_1.q''}, next_handle = 0, trace = []\<rparr>"

section \<open>Properties of the primitives\<close>

subsection \<open>\<open>str\<close> is injective and yields decimal digits\<close>

lemma digit_char_inj: "a < 10 \<Longrightarrow> b < 10 \<Longrightarrow> digit_char a = digit_char b \<Longrightarrow> a = b"
proof -
  assume a: "a < 10" and b: "b < 10" and e: "digit_char a = digit_char b"
  have ua: "a \<in> set [0..<10]" using a by simp
  have ub: "b \<in> set [0..<10]" using b by simp
  have l: "[0..<10] = [0,1,2,3,4,5,6,7,8,9::nat]" by (simp add: upt_rec)
  from ua ub e show ?thesis unfolding l digit_char_def by auto
qed

lemma digit_char_in: "d < 10 \<Longrightarrow> digit_char d \<in> set ''0123456789''"
  unfolding digit_char_def by (rule nth_mem) simp

lemma str_digits: "set (str n) \<subseteq> set ''0123456789''"
proof (induction n rule: str.induct)
  case (1 n)
  show ?case
  proof (cases "n < 10")
    case True
    then show ?thesis using digit_char_in[of n] by (subst str.simps) simp
  next
    case False
    have "n mod 10 < 10" by simp
    then show ?thesis using 1[OF False] False digit_char_in[of "n mod 10"]
      by (subst str.simps) simp
  qed
qed

lemma str_nonempty: "str n \<noteq> []"
  by (subst str.simps) simp

lemma str_length_one: "length (str n) = 1 \<longleftrightarrow> n < 10"
  using str_nonempty[of "n div 10"] by (subst str.simps) (auto simp: Suc_le_eq)

lemma str_inj: "str n = str m \<Longrightarrow> n = m"
proof (induction n arbitrary: m rule: str.induct)
  case (1 n)
  show ?case
  proof (cases "n < 10")
    case True
    then have "length (str m) = 1" using 1(2) str_length_one[of n] by simp
    then have m: "m < 10" using str_length_one[of m] by simp
    from 1(2) True m have "digit_char n = digit_char m"
      by (simp add: str.simps[of n] str.simps[of m])
    then show ?thesis using True m by (rule digit_char_inj[rotated 2])
  next
    case False
    then have "length (str m) \<noteq> 1" using 1(2) str_length_one[of n] by simp
    then have m: "\<not> m < 10" using str_length_one[of m] by simp
    from 1(2) False m have e: "str (n div 10) = str (m div 10)" "digit_char (n mod 10) = digit_char (m mod 10)"
      by (simp_all add: str.simps[of n] str.simps[of m])
    have "n div 10 = m div 10" using 1(1)[OF False e(1)] .
    moreover have "n mod 10 = m mod 10" using e(2) by (intro digit_char_inj) simp_all
    ultimately show ?thesis by (metis div_mult_mod_eq)
  qed
qed

subsection \<open>Paths\<close>

lemma rfind_absent: "c \<notin> set s \<Longrightarrow> rfind s c = - 1"
  by (simp add: rfind_def)

lemma rfind_last: "c \<notin> set b \<Longrightarrow> rfind (a @ c # b) c = int (length a)"
proof -
  assume n: "c \<notin> set b"
  have "takeWhile (\<lambda>x. x \<noteq> c) (rev b @ c # rev a) = rev b"
    using n by (auto simp: takeWhile_tail)
  then show ?thesis by (simp add: rfind_def)
qed

lemma basename_plain: "CHR ''/'' \<notin> set p \<Longrightarrow> basename p = p"
  by (simp add: basename_def rfind_absent)

lemma rfind_ge: "- 1 \<le> rfind s c"
proof (cases "c \<in> set s")
  case True
  then obtain a b where "s = a @ c # b" "c \<notin> set b" by (meson split_list_last)
  then show ?thesis by (simp add: rfind_last)
next
  case False
  then show ?thesis by (simp add: rfind_absent)
qed

lemma basename_last: "CHR ''/'' \<notin> set b \<Longrightarrow> basename (a @ CHR ''/'' # b) = b"
  by (simp add: basename_def rfind_last nat_add_distrib)

lemma basename_no_sep: "CHR ''/'' \<notin> set (basename p)"
proof (cases "CHR ''/'' \<in> set p")
  case True
  then obtain a b where "p = a @ CHR ''/'' # b" "CHR ''/'' \<notin> set b"
    by (meson split_list_last)
  then show ?thesis by (simp add: basename_last)
next
  case False
  then show ?thesis by (simp add: basename_plain)
qed

lemma path_join_prefix: "b \<noteq> [] \<Longrightarrow> hd b \<noteq> CHR ''/'' \<Longrightarrow> path_join a b = join_prefix a @ b"
  by (simp add: path_join_def join_prefix_def)

lemma join_prefix_cases: "join_prefix a = [] \<or> (\<exists>a'. join_prefix a = a' @ ''/'')"
  by (cases a rule: rev_cases) (auto simp: join_prefix_def)

lemma basename_prefixed: "CHR ''/'' \<notin> set b \<Longrightarrow> basename (join_prefix a @ b) = b"
  using join_prefix_cases[of a] by (auto simp: basename_plain basename_last)

lemma splitext_append: "fst (splitext p) @ snd (splitext p) = p"
  by (simp add: splitext_def Let_def)

lemma rfind_nth: "c \<in> set s \<Longrightarrow> drop (nat (rfind s c)) s = c # drop (Suc (nat (rfind s c))) s"
proof -
  assume "c \<in> set s"
  then obtain a b where s: "s = a @ c # b" "c \<notin> set b" by (meson split_list_last)
  then show ?thesis by (simp add: rfind_last)
qed

lemma splitext_ext_cases: "snd (splitext p) = [] \<or> hd (snd (splitext p)) = CHR ''.''"
proof (cases "CHR ''.'' \<in> set p")
  case True
  then show ?thesis using rfind_nth[OF True] by (simp add: splitext_def Let_def)
next
  case False
  then show ?thesis using rfind_ge[of p "CHR ''/''"] by (simp add: splitext_def Let_def rfind_absent)
qed

lemma splitext_stem_subset: "set (fst (splitext p)) \<subseteq> set p"
  by (auto simp: splitext_def Let_def dest: in_set_takeD)

lemma splitext_ext:
  assumes pre: "pre = [] \<or> (\<exists>a. pre = a @ ''/'')"
    and x: "CHR ''/'' \<notin> set x" "\<exists>c\<in>set x. c \<noteq> CHR ''.''"
    and e: "CHR ''/'' \<notin> set e" "CHR ''.'' \<notin> set e"
  shows "splitext (pre @ x @ CHR ''.'' # e) = (pre @ x, CHR ''.'' # e)"
proof -
  have dot: "rfind (pre @ x @ CHR ''.'' # e) CHR ''.'' = int (length pre + length x)"
    using rfind_last[of "CHR ''.''" e "pre @ x"] e by simp
  have sep: "rfind (pre @ x @ CHR ''.'' # e) CHR ''/'' = int (length pre) - 1"
  proof (cases "pre = []")
    case True
    then show ?thesis using x e by (simp add: rfind_absent)
  next
    case False
    then obtain a where a: "pre = a @ ''/''" using pre by blast
    have "rfind (a @ CHR ''/'' # (x @ CHR ''.'' # e)) CHR ''/'' = int (length a)"
      using x e by (intro rfind_last) simp
    then show ?thesis using a by simp
  qed
  have ex: "list_ex (\<lambda>c. c \<noteq> CHR ''.'') x" using x(2) by (simp add: list_ex_iff)
  show ?thesis
    unfolding splitext_def Let_def dot sep using ex by simp
qed



lemma str_no_sep: "CHR ''/'' \<notin> set (str n)"
proof
  assume "CHR ''/'' \<in> set (str n)"
  then have "CHR ''/'' \<in> set ''0123456789''" using str_digits[of n] by blast
  then show False by simp
qed

lemma str_no_dot: "CHR ''.'' \<notin> set (str n)"
proof
  assume "CHR ''.'' \<in> set (str n)"
  then have "CHR ''.'' \<in> set ''0123456789''" using str_digits[of n] by blast
  then show False by simp
qed

lemma hd_name: "CHR ''/'' \<notin> set s \<Longrightarrow> hd (s @ CHR ''_'' # t) \<noteq> CHR ''/''"
  by (cases s) auto

lemma path_join_base64_stem:
  assumes s: "CHR ''/'' \<notin> set s" and e: "CHR ''/'' \<notin> set e" "CHR ''.'' \<notin> set e"
  shows "fst (splitext (path_join a (s @ ''_'' @ str n @ ''.'' @ e))) = path_join a (s @ ''_'' @ str n)"
proof -
  let ?x = "s @ CHR ''_'' # str n"
  have x1: "CHR ''/'' \<notin> set ?x" using s str_no_sep[of n] by simp
  have x2: "\<exists>c\<in>set ?x. c \<noteq> CHR ''.''" by (rule bexI[of _ "CHR ''_''"]) simp_all
  have sp: "splitext (join_prefix a @ ?x @ CHR ''.'' # e) = (join_prefix a @ ?x, CHR ''.'' # e)"
    using join_prefix_cases[of a] x1 x2 e by (rule splitext_ext)
  have j1: "path_join a (?x @ CHR ''.'' # e) = join_prefix a @ ?x @ CHR ''.'' # e"
    using hd_name[OF s, of "str n @ CHR ''.'' # e"] by (simp add: path_join_prefix)
  have j2: "path_join a ?x = join_prefix a @ ?x"
    using hd_name[OF s, of "str n"] by (simp add: path_join_prefix)
  have "fst (splitext (path_join a (?x @ CHR ''.'' # e))) = path_join a ?x"
    unfolding j1 j2 sp by simp
  then show ?thesis by simp
qed

subsection \<open>Base64 decodes what it encodes\<close>





















section \<open>What a call of \<open>process_page\<close> does\<close>

lemma lower_no_char:
  assumes "lower s = t" "lower_char c = c" "c \<notin> set t"
  shows "c \<notin> set s"
proof
  assume "c \<in> set s"
  then have "lower_char c \<in> set (lower s)" by (simp add: lower_def)
  then show False using assms by simp
qed

lemma base64_no_sep: "lower s = ''base64'' \<Longrightarrow> CHR ''/'' \<notin> set s"
  by (rule lower_no_char[where t = "''base64''"]) (simp_all add: lower_char_def)

lemma base64_no_dot: "lower s = ''base64'' \<Longrightarrow> CHR ''.'' \<notin> set s"
  by (rule lower_no_char[where t = "''base64''"]) (simp_all add: lower_char_def)

lemma stem_no_sep: "CHR ''/'' \<notin> set (fst (splitext (basename p)))"
  using splitext_stem_subset[of "basename p"] basename_no_sep[of p] by blast

lemma path_join_append: "b \<noteq> [] \<Longrightarrow> path_join a (b @ c) = path_join a b @ c"
  by (simp add: path_join_def)

lemma b64_output_path:
  assumes "lower img_format = ''base64''"
  shows "fst (splitext (named_output output_dir pdf_path page_num img_format)) @ ''.b64'' =
         named_output output_dir pdf_path page_num ''b64''"
proof -
  let ?s = "fst (splitext (basename pdf_path))"
  have "fst (splitext (path_join output_dir (?s @ ''_'' @ str (page_num + 1) @ ''.'' @ img_format)))
         = path_join output_dir (?s @ ''_'' @ str (page_num + 1))"
    using stem_no_sep base64_no_sep[OF assms] base64_no_dot[OF assms]
    by (rule path_join_base64_stem)
  moreover have "path_join output_dir ((?s @ ''_'' @ str (page_num + 1)) @ ''.b64'')
         = path_join output_dir (?s @ ''_'' @ str (page_num + 1)) @ ''.b64''"
    by (rule path_join_append) simp
  ultimately show ?thesis by (simp add: named_output_def)
qed

lemma img_save_run:
  "img_save E img p args w =
     (if \<not> can_write E p then (w, Inl IOError)
      else case pil_encode E img args of
             None \<Rightarrow>
               (if files w p = None then w
                else w\<lparr>files := (files w)(p \<mapsto> []), trace := trace w @ [FileEmptied p]\<rparr>,
                Inl EncodeError)
           | Some data \<Rightarrow>
               (w\<lparr>files := (files w)(p \<mapsto> data), trace := trace w @ [FileWrite p data]\<rparr>, Inr ()))"
proof -
  have "(files w)(p := None) = files w" if "files w p = None"
    using that by (simp add: fun_upd_idem)
  then show ?thesis
    by (auto simp: img_save_def open_truncate_def remove_file_def emit_def and_then_def raise_def
        split: option.splits)
qed

lemma base64_branch_run:
  "and_then (img_encode E img (SaveWEBP quality 0)) (\<lambda>buffer. write_file E p (b64encode buffer)) w =
     (case pil_encode E img (SaveWEBP quality 0) of
        None \<Rightarrow> (w, Inl EncodeError)
      | Some buffer \<Rightarrow>
          if can_write E p
          then (w\<lparr>files := (files w)(p \<mapsto> b64encode buffer),
                  trace := trace w @ [FileWrite p (b64encode buffer)]\<rparr>, Inr ())
          else (w, Inl IOError))"
  by (simp add: img_encode_def write_file_def and_then_def raise_def return_ok_def
      split: option.splits)



lemma process_page_alt:
  "process_page E pdf_path page_num output_dir dpi img_format quality =
     and_then (emit (Call page_num)) (\<lambda>_.
     and_then (fitz_open E pdf_path) (\<lambda>(h, doc).
     and_then (load_page doc page_num) (\<lambda>page.
     and_then (get_pixmap E page dpi) (\<lambda>pix.
     and_then
       (save_branch E pix (named_output output_dir pdf_path page_num img_format)
          img_format quality) (\<lambda>_.
     and_then (doc_close h) (\<lambda>_.
     return_ok page_num))))))"
  unfolding process_page_def save_branch_def named_output_def Let_def by (rule refl)

lemma save_branch_run:
  "save_branch E img (named_output output_dir pdf_path page_num img_format) img_format quality w =
   (case write_outcome E img (written_path pdf_path output_dir img_format page_num) img_format quality of
      Inl e \<Rightarrow>
        (if failed_save_empties (files w) (written_path pdf_path output_dir img_format page_num)
              img_format e
         then w\<lparr>files := (files w)(written_path pdf_path output_dir img_format page_num \<mapsto> []),
                trace := trace w @ [FileEmptied (written_path pdf_path output_dir img_format page_num)]\<rparr>
         else w, Inl e)
    | Inr data \<Rightarrow>
        (w\<lparr>files := (files w)(written_path pdf_path output_dir img_format page_num \<mapsto> data),
           trace := trace w @ [FileWrite (written_path pdf_path output_dir img_format page_num) data]\<rparr>,
         Inr ()))"
proof (cases "lower img_format = ''base64''")
  case True
  have ne: "lower img_format \<noteq> ''webp''" "lower img_format \<noteq> ''jpeg''"
    "lower img_format \<noteq> ''jpg''" "lower img_format \<noteq> ''png''"
    using True by simp_all
  show ?thesis
    unfolding save_branch_def using True ne
    by (simp add: Let_def b64_output_path base64_branch_run write_outcome_def written_path_def
        failed_save_empties_def split: option.splits)
next
  case False
  then show ?thesis
    unfolding save_branch_def
    by (simp add: img_save_run write_outcome_def written_path_def save_args_for_def
        failed_save_empties_def split: option.splits)
qed

lemma process_page_run:
  "process_page E pdf_path page_num output_dir dpi img_format quality w =
     (case page_outcome E (files w) pdf_path page_num output_dir dpi img_format quality of
        Inl e \<Rightarrow>
          (if e = DocumentOpenError then w\<lparr>trace := trace w @ [Call page_num]\<rparr>
           else if failed_save_empties (files w)
                     (written_path pdf_path output_dir img_format page_num) img_format e
           then w\<lparr>files := (files w)(written_path pdf_path output_dir img_format page_num \<mapsto> []),
                  next_handle := Suc (next_handle w),
                  trace := trace w @
                    [Call page_num, DocOpen (next_handle w) pdf_path,
                     FileEmptied (written_path pdf_path output_dir img_format page_num)]\<rparr>
           else w\<lparr>next_handle := Suc (next_handle w),
                  trace := trace w @ [Call page_num, DocOpen (next_handle w) pdf_path]\<rparr>,
           Inl e)
      | Inr data \<Rightarrow>
          (w\<lparr>files := (files w)(written_path pdf_path output_dir img_format page_num \<mapsto> data),
             next_handle := Suc (next_handle w),
             trace := trace w @
               [Call page_num, DocOpen (next_handle w) pdf_path,
                FileWrite (written_path pdf_path output_dir img_format page_num) data,
                DocClose (next_handle w)]\<rparr>,
           Inr page_num))"
proof -
  have wo: "\<And>img. write_outcome E img (written_path pdf_path output_dir img_format page_num) img_format quality
      \<noteq> Inl DocumentOpenError"
    by (simp add: write_outcome_def split: option.splits)
  show ?thesis
    unfolding process_page_alt
    using wo
    by (simp add: and_then_def emit_def fitz_open_def load_page_def get_pixmap_def raise_def
        return_ok_def doc_close_def save_branch_run page_outcome_def failed_save_empties_def
        del: not_None_eq split: option.splits sum.splits)
qed


lemma page_outcome_success:
  assumes "fs pdf_path = Some content" "fitz_parse E content = Some doc" "page_num < length doc"
    "fitz_render E (doc ! page_num) dpi = Some pix"
  shows "page_outcome E fs pdf_path page_num output_dir dpi img_format quality =
    write_outcome E pix (written_path pdf_path output_dir img_format page_num) img_format quality"
  using assms by (simp add: page_outcome_def)

lemma process_page_success:
  assumes "process_page E pdf_path page_num output_dir dpi img_format quality w = (w', Inr r)"
  obtains data where
    "page_outcome E (files w) pdf_path page_num output_dir dpi img_format quality = Inr data"
    "r = page_num"
    "w' = w\<lparr>files := (files w)(written_path pdf_path output_dir img_format page_num \<mapsto> data),
             next_handle := Suc (next_handle w),
             trace := trace w @
               [Call page_num, DocOpen (next_handle w) pdf_path,
                FileWrite (written_path pdf_path output_dir img_format page_num) data,
                DocClose (next_handle w)]\<rparr>"
  using assms unfolding process_page_run by (auto split: sum.splits)

lemma process_page_failure:
  assumes "process_page E pdf_path page_num output_dir dpi img_format quality w = (w', Inl e)"
  shows "page_outcome E (files w) pdf_path page_num output_dir dpi img_format quality = Inl e"
    and "files w' =
           (if failed_save_empties (files w)
                 (written_path pdf_path output_dir img_format page_num) img_format e
            then (files w)(written_path pdf_path output_dir img_format page_num \<mapsto> [])
            else files w)"
    and "dirs w' = dirs w"
    and "trace w' = trace w @ Call page_num #
           (if e = DocumentOpenError then []
            else DocOpen (next_handle w) pdf_path #
              (if failed_save_empties (files w)
                    (written_path pdf_path output_dir img_format page_num) img_format e
               then [FileEmptied (written_path pdf_path output_dir img_format page_num)]
               else []))"
  using assms unfolding process_page_run
  by (auto simp: failed_save_empties_def split: sum.splits if_splits)



subsection \<open>Runs in the sample environment\<close>

lemma sample_stem: "fst (splitext (basename ''sample.pdf'')) = ''sample''"
  by (simp add: splitext_def basename_def rfind_def)

lemma str_small: "n < 10 \<Longrightarrow> str n = [digit_char n]"
  by (simp add: str.simps)

lemma sample_page_webp:
  "process_page sample_env ''sample.pdf'' 0 ''out'' 150 ''webp'' 80 sample_world =
     (sample_world\<lparr>files := (files sample_world)(''out/sample_1.webp'' \<mapsto> [87, 80, 0, 0, 0]),
        next_handle := 1,
        trace := [Call 0, DocOpen 0 ''sample.pdf'',
                  FileWrite ''out/sample_1.webp'' [87, 80, 0, 0, 0], DocClose 0]\<rparr>, Inr 0)"
  by (simp add: process_page_run page_outcome_def write_outcome_def written_path_def
      named_output_def save_args_for_def sample_stem str_small digit_char_def path_join_def
      lower_def lower_char_def sample_env_def sample_world_def)



section \<open>The base64 file holds the bytes of the WEBP file\<close>



lemma file_writes_append: "file_writes (xs @ ys) = file_writes xs @ file_writes ys"
  by (induction xs rule: file_writes.induct) simp_all

lemma doc_opens_append: "doc_opens (xs @ ys) = doc_opens xs @ doc_opens ys"
  by (induction xs rule: doc_opens.induct) simp_all

lemma doc_closes_append: "doc_closes (xs @ ys) = doc_closes xs @ doc_closes ys"
  by (induction xs rule: doc_closes.induct) simp_all

lemma calls_append: "calls (xs @ ys) = calls xs @ calls ys"
  by (induction xs rule: calls.induct) simp_all

lemma submits_append: "submits (xs @ ys) = submits xs @ submits ys"
  by (induction xs rule: submits.induct) simp_all

lemma new_events_process_page:
  assumes "process_page E pdf_path page_num output_dir dpi img_format quality w = (w', r)"
  shows "new_events w w' =
    (case r of
       Inl e \<Rightarrow>
         Call page_num #
           (if e = DocumentOpenError then []
            else DocOpen (next_handle w) pdf_path #
              (if failed_save_empties (files w)
                    (written_path pdf_path output_dir img_format page_num) img_format e
               then [FileEmptied (written_path pdf_path output_dir img_format page_num)]
               else []))
     | Inr _ \<Rightarrow>
         [Call page_num, DocOpen (next_handle w) pdf_path,
          FileWrite (written_path pdf_path output_dir img_format page_num)
            (projr (page_outcome E (files w) pdf_path page_num output_dir dpi img_format quality)),
          DocClose (next_handle w)])"
  using assms unfolding process_page_run new_events_def
  by (auto split: sum.splits if_splits)

lemma sample_page_out_of_range:
  "process_page sample_env ''sample.pdf'' 5 ''out'' 150 ''webp'' 80 sample_world =
     (sample_world\<lparr>next_handle := 1, trace := [Call 5, DocOpen 0 ''sample.pdf'']\<rparr>,
      Inl PageIndexError)"
  by (simp add: process_page_run page_outcome_def failed_save_empties_def sample_env_def
      sample_world_def)

lemma sample_next_handle: "next_handle sample_world = 0"
  by (simp add: sample_world_def)

section \<open>The document handle of \<open>process_page\<close>\<close>

text \<open>
  Claim C1 says that the handle opened for \<open>pdf_path\<close> is closed on every exit path. The
  function has no \<open>try\<close>/\<open>finally\<close> and no \<open>with\<close> around the document, and its only
  \<open>doc.close()\<close> is the statement after the save: a page index past the last page raises
  from \<open>load_page\<close> with the handle open and never closed.
\<close>

theorem c1_counterexample:
  "process_page sample_env ''sample.pdf'' 5 ''out'' 150 ''webp'' 80 sample_world =
     (sample_world\<lparr>next_handle := 1, trace := [Call 5, DocOpen 0 ''sample.pdf'']\<rparr>,
      Inl PageIndexError)"
  by (rule sample_page_out_of_range)

text \<open>
  Claim C1, amended. A call opens one handle unless \<open>fitz.open\<close> itself raises, and closes
  that handle exactly once when it returns; when loading the page, rasterizing, encoding
  or writing raises, the error propagates and the call has not closed the handle.
\<close>

theorem c1_handle_closed_on_return_only:
  assumes "process_page E pdf_path page_num output_dir dpi img_format quality w = (w', r)"
  shows "doc_opens (new_events w w') = (if r = Inl DocumentOpenError then [] else [next_handle w])
       \<and> doc_closes (new_events w w') = (case r of Inr _ \<Rightarrow> [next_handle w] | Inl _ \<Rightarrow> [])"
  unfolding new_events_process_page[OF assms]
  by (cases r) simp_all

theorem c1_witness:
  "doc_opens (new_events sample_world
      (fst (process_page sample_env ''sample.pdf'' 5 ''out'' 150 ''webp'' 80 sample_world))) = [0]
   \<and> doc_closes (new_events sample_world
      (fst (process_page sample_env ''sample.pdf'' 5 ''out'' 150 ''webp'' 80 sample_world))) = []
   \<and> doc_opens (new_events sample_world
      (fst (process_page sample_env ''sample.pdf'' 0 ''out'' 150 ''webp'' 80 sample_world))) = [0]
   \<and> doc_closes (new_events sample_world
      (fst (process_page sample_env ''sample.pdf'' 0 ''out'' 150 ''webp'' 80 sample_world))) = [0]"
proof -
  have r5: "process_page sample_env ''sample.pdf'' 5 ''out'' 150 ''webp'' 80 sample_world =
      (fst (process_page sample_env ''sample.pdf'' 5 ''out'' 150 ''webp'' 80 sample_world),
       Inl PageIndexError)"
    by (simp add: sample_page_out_of_range)
  have r0: "process_page sample_env ''sample.pdf'' 0 ''out'' 150 ''webp'' 80 sample_world =
      (fst (process_page sample_env ''sample.pdf'' 0 ''out'' 150 ''webp'' 80 sample_world), Inr 0)"
    by (simp add: sample_page_webp)
  show ?thesis
    using c1_handle_closed_on_return_only[OF r5] c1_handle_closed_on_return_only[OF r0]
    by (simp add: sample_next_handle)
qed

lemma process_page_writes:
  assumes "files w pdf_path = Some content" "fitz_parse E content = Some doc"
    "page_num < length doc" "fitz_render E (doc ! page_num) dpi = Some pix"
    "write_outcome E pix (written_path pdf_path output_dir img_format page_num) img_format quality
       = Inr data"
  shows "process_page E pdf_path page_num output_dir dpi img_format quality w =
     (w\<lparr>files := (files w)(written_path pdf_path output_dir img_format page_num \<mapsto> data),
        next_handle := Suc (next_handle w),
        trace := trace w @
          [Call page_num, DocOpen (next_handle w) pdf_path,
           FileWrite (written_path pdf_path output_dir img_format page_num) data,
           DocClose (next_handle w)]\<rparr>,
      Inr page_num)"
  unfolding process_page_run
    page_outcome_success[where fs = "files w" and pdf_path = pdf_path, OF assms(1-4)] assms(5)
  by simp


lemma lower_supported:
  "lower ''webp'' = ''webp''" "lower ''jpeg'' = ''jpeg''" "lower ''jpg'' = ''jpg''"
  "lower ''png'' = ''png''" "lower ''base64'' = ''base64''"
  by (simp_all add: lower_def lower_char_def)



lemma sample_doc:
  "files sample_world ''sample.pdf'' = Some [37, 80, 68, 70]"
  "fitz_parse sample_env [37, 80, 68, 70] = Some [0, 1, 2]"
  by (simp_all add: sample_world_def sample_env_def)



lemma sample_page_tiff:
  "process_page sample_env ''sample.pdf'' 0 ''out'' 150 ''tiff'' 80 sample_world =
     (sample_world\<lparr>files := (files sample_world)(''out/sample_1.tiff'' \<mapsto> [87, 80, 0, 0, 0]),
        next_handle := 1,
        trace := [Call 0, DocOpen 0 ''sample.pdf'',
                  FileWrite ''out/sample_1.tiff'' [87, 80, 0, 0, 0], DocClose 0]\<rparr>, Inr 0)"
  by (simp add: process_page_run page_outcome_def write_outcome_def written_path_def
      named_output_def save_args_for_def sample_stem str_small digit_char_def path_join_def
      lower_def lower_char_def sample_env_def sample_world_def)

lemma sample_named_output:
  "named_output ''out'' ''sample.pdf'' 0 ext = ''out/sample_1.'' @ ext"
  by (simp add: named_output_def sample_stem str_small digit_char_def path_join_def)

lemma sample_new_events: "new_events sample_world w' = trace w'"
  by (simp add: new_events_def sample_world_def)

section \<open>One file per page, named after the page\<close>





section \<open>Formats that are not recognized\<close>

text \<open>
  Claim C2 says that a format outside the five is saved like \<open>webp\<close>, in a file with the
  extension \<open>.webp\<close>. The path is built from the format string before the dispatch
  (\<open>output_image\<close>) and the fallback branch saves to it unchanged: with \<open>tiff\<close> the one
  file written is \<open>out/sample_1.tiff\<close>, holding WEBP bytes, and no \<open>.webp\<close> file exists.
\<close>

theorem c2_counterexample:
  "snd (process_page sample_env ''sample.pdf'' 0 ''out'' 150 ''tiff'' 80 sample_world) = Inr 0
   \<and> file_writes (new_events sample_world
        (fst (process_page sample_env ''sample.pdf'' 0 ''out'' 150 ''tiff'' 80 sample_world))) =
      [(''out/sample_1.tiff'', [87, 80, 0, 0, 0])]
   \<and> files (fst (process_page sample_env ''sample.pdf'' 0 ''out'' 150 ''tiff'' 80 sample_world))
        ''out/sample_1.webp'' = None"
  by (simp add: sample_page_tiff sample_new_events) (simp add: sample_world_def)

text \<open>
  Claim C2, amended. For a format that is, lowercased, none of \<open>webp\<close>, \<open>jpeg\<close>, \<open>jpg\<close>,
  \<open>png\<close>, \<open>base64\<close>, the call does not fail on the format: when the page rasterizes, the
  WEBP encoder (given quality, \<open>method=0\<close>) succeeds and the file can be written, the call
  returns, having written exactly the WEBP bytes to the file whose extension is the
  caller's format string.
\<close>

theorem c2_unrecognized_format_saves_webp_under_its_own_name:
  assumes unrec: "lower img_format \<notin> {''webp'', ''jpeg'', ''jpg'', ''png'', ''base64''}"
    and doc: "files w pdf_path = Some content" "fitz_parse E content = Some doc"
    and i: "page_num < length doc"
    and pix: "fitz_render E (doc ! page_num) dpi = Some pix"
    and enc: "pil_encode E pix (SaveWEBP quality 0) = Some data"
    and cw: "can_write E (named_output output_dir pdf_path page_num img_format)"
  shows "process_page E pdf_path page_num output_dir dpi img_format quality w =
     (w\<lparr>files := (files w)(named_output output_dir pdf_path page_num img_format \<mapsto> data),
        next_handle := Suc (next_handle w),
        trace := trace w @
          [Call page_num, DocOpen (next_handle w) pdf_path,
           FileWrite (named_output output_dir pdf_path page_num img_format) data,
           DocClose (next_handle w)]\<rparr>,
      Inr page_num)"
proof -
  have wp: "written_path pdf_path output_dir img_format page_num =
      named_output output_dir pdf_path page_num img_format"
    using unrec by (simp add: written_path_def)
  have "write_outcome E pix (written_path pdf_path output_dir img_format page_num) img_format quality
      = Inr data"
    using unrec enc cw unfolding wp by (simp add: write_outcome_def save_args_for_def)
  from process_page_writes[OF doc i pix this] show ?thesis unfolding wp .
qed

theorem c2_witness:
  "lower ''tiff'' \<notin> {''webp'', ''jpeg'', ''jpg'', ''png'', ''base64''}
   \<and> process_page sample_env ''sample.pdf'' 0 ''out'' 150 ''tiff'' 80 sample_world =
     (sample_world\<lparr>files := (files sample_world)(''out/sample_1.tiff'' \<mapsto> [87, 80, 0, 0, 0]),
        next_handle := Suc (next_handle sample_world),
        trace := trace sample_world @
          [Call 0, DocOpen (next_handle sample_world) ''sample.pdf'',
           FileWrite ''out/sample_1.tiff'' [87, 80, 0, 0, 0],
           DocClose (next_handle sample_world)]\<rparr>,
      Inr 0)"
proof -
  have unrec: "lower ''tiff'' \<notin> {''webp'', ''jpeg'', ''jpg'', ''png'', ''base64''}"
    by (simp add: lower_def lower_char_def)
  have i: "0 < length [0, 1, 2 :: nat]" by simp
  have pix: "fitz_render sample_env ([0, 1, 2] ! 0) 150 =
      Some \<lparr>width = 1, height = 1, samples = [0, 0, 0]\<rparr>"
    by (simp add: sample_env_def)
  have enc: "pil_encode sample_env \<lparr>width = 1, height = 1, samples = [0, 0, 0]\<rparr> (SaveWEBP 80 0) =
      Some [87, 80, 0, 0, 0]"
    by (simp add: sample_env_def)
  have cw: "can_write sample_env (named_output ''out'' ''sample.pdf'' 0 ''tiff'')"
    by (simp add: sample_named_output sample_env_def)
  show ?thesis
    using c2_unrecognized_format_saves_webp_under_its_own_name[OF unrec sample_doc i pix enc cw]
      unrec
    by (simp add: sample_named_output)
qed

section \<open>The dispatch ignores case, the file name keeps it\<close>



section \<open>What a run of \<open>pdf_to_jpeg\<close> does\<close>

lemma pdf_to_jpeg_alt:
  "pdf_to_jpeg E sched pdf_path output_dir dpi parallel max_workers img_format quality =
     and_then (path_exists output_dir) (\<lambda>exists.
     and_then (if \<not> exists then makedirs E output_dir else return_ok ()) (\<lambda>_.
     probe_and_run E sched pdf_path output_dir dpi parallel max_workers img_format quality))"
  unfolding pdf_to_jpeg_def probe_and_run_def run_pages_def Let_def by (rule refl)

lemma pdf_to_jpeg_run:
  "pdf_to_jpeg E sched pdf_path output_dir dpi parallel max_workers img_format quality w =
     (if output_dir \<in> dirs w \<or> files w output_dir \<noteq> None then
        probe_and_run E sched pdf_path output_dir dpi parallel max_workers img_format quality w
      else if can_mkdir E output_dir then
        probe_and_run E sched pdf_path output_dir dpi parallel max_workers img_format quality
          (w\<lparr>dirs := insert output_dir (dirs w), trace := trace w @ [Mkdir output_dir]\<rparr>)
      else (w, Inl IOError))"
  unfolding pdf_to_jpeg_alt
  by (simp add: and_then_def path_exists_def makedirs_def return_ok_def)

lemma probe_and_run_run:
  "probe_and_run E sched pdf_path output_dir dpi parallel max_workers img_format quality w =
     (case files w pdf_path of
        None \<Rightarrow> (w, Inl DocumentOpenError)
      | Some content \<Rightarrow>
          (case fitz_parse E content of
             None \<Rightarrow> (w, Inl DocumentOpenError)
           | Some doc \<Rightarrow>
               run_pages E sched pdf_path output_dir dpi parallel max_workers img_format quality
                 (length doc)
                 (w\<lparr>next_handle := Suc (next_handle w),
                    trace := trace w @
                      [DocOpen (next_handle w) pdf_path, DocClose (next_handle w),
                       LogStart (length doc) parallel]\<rparr>)))"
  unfolding probe_and_run_def
  by (simp add: and_then_def fitz_open_def doc_close_def emit_def split: option.splits)

lemma sample_dirs: "dirs sample_world = {}"
  by (simp add: sample_world_def)


section \<open>The output directory comes first\<close>

text \<open>
  Claim C10. \<open>pdf_to_jpeg\<close> creates the output directory before it opens the PDF: when
  the directory is absent and can be created, and the file at \<open>pdf_path\<close> is missing or
  not a document, the call raises from \<open>fitz.open\<close> and leaves the new, empty directory
  behind; nothing else has happened.
\<close>

theorem c10_directory_created_before_the_probe:
  assumes absent: "output_dir \<notin> dirs w" "files w output_dir = None"
    and mk: "can_mkdir E output_dir"
    and bad: "files w pdf_path = None \<or>
      (\<exists>content. files w pdf_path = Some content \<and> fitz_parse E content = None)"
  shows "\<exists>w'. pdf_to_jpeg E sched pdf_path output_dir dpi parallel max_workers img_format quality w
             = (w', Inl DocumentOpenError)
           \<and> new_events w w' = [Mkdir output_dir]
           \<and> dirs w' = insert output_dir (dirs w) \<and> dirs w' \<noteq> dirs w
           \<and> files w' = files w"
proof -
  have "pdf_to_jpeg E sched pdf_path output_dir dpi parallel max_workers img_format quality w =
     (w\<lparr>dirs := insert output_dir (dirs w), trace := trace w @ [Mkdir output_dir]\<rparr>,
      Inl DocumentOpenError)"
    using assms unfolding pdf_to_jpeg_run probe_and_run_run
    by (auto split: option.splits)
  then show ?thesis using absent(1) by (auto simp: new_events_def)
qed

theorem c10_witness:
  "\<exists>w'. pdf_to_jpeg sample_env [] ''missing.pdf'' ''out'' 150 False None ''webp'' 80 sample_world
           = (w', Inl DocumentOpenError)
         \<and> new_events sample_world w' = [Mkdir ''out'']
         \<and> dirs w' = {''out''} \<and> dirs w' \<noteq> dirs sample_world
         \<and> files w' = files sample_world"
proof -
  have absent: "''out'' \<notin> dirs sample_world" "files sample_world ''out'' = None"
    by (simp_all add: sample_world_def)
  have mk: "can_mkdir sample_env ''out''" by (simp add: sample_env_def)
  have bad: "files sample_world ''missing.pdf'' = None \<or>
      (\<exists>content. files sample_world ''missing.pdf'' = Some content \<and>
         fitz_parse sample_env content = None)"
    by (simp add: sample_world_def)
  show ?thesis
    using c10_directory_created_before_the_probe[OF absent mk bad, of "[]" 150 False None "''webp''" 80]
    by (simp add: sample_dirs)
qed

section \<open>A document without pages\<close>






section \<open>The two loops\<close>

lemma page_effects_append: "page_effects (xs @ ys) = page_effects xs @ page_effects ys"
  by (induction xs rule: page_effects.induct) simp_all

lemma process_page_trace:
  assumes "process_page E pdf_path i output_dir dpi img_format quality w = (w', r)"
  shows "\<exists>evs. trace w' = trace w @ evs \<and> calls evs = [i] \<and> submits evs = []
     \<and> (case r of
           Inl e \<Rightarrow> page_effects evs = [] \<or>
             (e = EncodeError \<and>
              page_effects evs = [FileEmptied (written_path pdf_path output_dir img_format i)])
         | Inr n \<Rightarrow> n = i \<and>
             (\<exists>data. page_effects evs = [FileWrite (written_path pdf_path output_dir img_format i) data]))"
  using assms unfolding process_page_run
  by (auto simp: failed_save_empties_def split: sum.splits if_splits)

lemma sequential_loop_trace:
  assumes "sequential_loop (\<lambda>i. process_page E pdf_path i output_dir dpi img_format quality)
             n pages w = (w', r)"
  shows "\<exists>evs k ds emptied. trace w' = trace w @ evs \<and> calls evs = take k pages \<and> submits evs = []
     \<and> length ds \<le> k \<and> k \<le> Suc (length ds) \<and> k \<le> length pages
     \<and> (r = Inr () \<longrightarrow> length ds = length pages)
     \<and> (emptied \<longrightarrow> r = Inl EncodeError \<and> k = Suc (length ds))
     \<and> page_effects evs =
         concat (map (\<lambda>(i, data).
           [FileWrite (written_path pdf_path output_dir img_format i) data, LogPage (Suc i) n])
           (zip pages ds)) @
         (if emptied
          then [FileEmptied (written_path pdf_path output_dir img_format (pages ! length ds))]
          else [])"
  using assms
proof (induction pages arbitrary: w)
  case Nil
  then have "w' = w" "r = Inr ()" by (simp_all add: return_ok_def)
  then show ?case by (intro exI[of _ "[]"] exI[of _ 0] exI[of _ False]) simp
next
  case (Cons i rest)
  obtain w1 r1 where t: "process_page E pdf_path i output_dir dpi img_format quality w = (w1, r1)"
    by (cases "process_page E pdf_path i output_dir dpi img_format quality w")
  from process_page_trace[OF t] obtain evs1 where
    e1: "trace w1 = trace w @ evs1" "calls evs1 = [i]" "submits evs1 = []"
    and c1: "case r1 of
           Inl e \<Rightarrow> page_effects evs1 = [] \<or>
             (e = EncodeError \<and>
              page_effects evs1 = [FileEmptied (written_path pdf_path output_dir img_format i)])
         | Inr n \<Rightarrow> n = i \<and>
             (\<exists>data. page_effects evs1 = [FileWrite (written_path pdf_path output_dir img_format i) data])"
    by blast
  show ?case
  proof (cases r1)
    case (Inl e)
    then have w': "w' = w1" "r = Inl e" using Cons.prems t by (simp_all add: and_then_def)
    from c1 Inl consider (none) "page_effects evs1 = []"
      | (emptied) "e = EncodeError"
          "page_effects evs1 = [FileEmptied (written_path pdf_path output_dir img_format i)]"
      by auto
    then show ?thesis
    proof cases
      case none
      then show ?thesis using w' e1
        by (intro exI[of _ evs1] exI[of _ 1] exI[of _ "[]"] exI[of _ False]) simp
    next
      case emptied
      then show ?thesis using w' e1
        by (intro exI[of _ evs1] exI[of _ 1] exI[of _ "[]"] exI[of _ True]) simp
    qed
  next
    case (Inr m)
    then obtain data where m: "m = i"
      and pe: "page_effects evs1 = [FileWrite (written_path pdf_path output_dir img_format i) data]"
      using c1 by auto
    have rest: "sequential_loop (\<lambda>i. process_page E pdf_path i output_dir dpi img_format quality)
        n rest (w1\<lparr>trace := trace w1 @ [LogPage (Suc i) n]\<rparr>) = (w', r)"
      using Cons.prems t Inr m by (simp add: and_then_def emit_def)
    from Cons.IH[OF rest] obtain evs k ds emptied where
      ih: "trace w' = trace w1 @ [LogPage (Suc i) n] @ evs" "calls evs = take k rest"
        "submits evs = []" "length ds \<le> k" "k \<le> Suc (length ds)" "k \<le> length rest"
        "r = Inr () \<longrightarrow> length ds = length rest"
        "emptied \<longrightarrow> r = Inl EncodeError \<and> k = Suc (length ds)"
        "page_effects evs =
         concat (map (\<lambda>(i, data).
           [FileWrite (written_path pdf_path output_dir img_format i) data, LogPage (Suc i) n])
           (zip rest ds)) @
         (if emptied
          then [FileEmptied (written_path pdf_path output_dir img_format (rest ! length ds))]
          else [])"
      by auto
    show ?thesis
      using e1 pe ih
      by (intro exI[of _ "evs1 @ [LogPage (Suc i) n] @ evs"] exI[of _ "Suc k"] exI[of _ "data # ds"]
          exI[of _ emptied])
        (simp add: calls_append submits_append page_effects_append)
  qed
qed

lemma as_completed_loop_trace:
  assumes "as_completed_loop (\<lambda>i. process_page E pdf_path i output_dir dpi img_format quality)
             n raised pages w = (w', r)"
  shows "\<exists>evs. trace w' = trace w @ evs \<and> calls evs = pages \<and> submits evs = []"
  using assms
proof (induction pages arbitrary: w raised)
  case Nil
  then have "w' = w" by (simp add: return_ok_def raise_def split: option.splits)
  then show ?case by (intro exI[of _ "[]"]) simp
next
  case (Cons i rest)
  obtain w1 r1 where t: "process_page E pdf_path i output_dir dpi img_format quality w = (w1, r1)"
    by (cases "process_page E pdf_path i output_dir dpi img_format quality w")
  from process_page_trace[OF t] obtain evs1 where
    e1: "trace w1 = trace w @ evs1" "calls evs1 = [i]" "submits evs1 = []"
    by blast
  have "\<exists>w2 raised2 evs2. as_completed_loop
      (\<lambda>i. process_page E pdf_path i output_dir dpi img_format quality) n raised2 rest w2 = (w', r)
      \<and> trace w2 = trace w1 @ evs2 \<and> calls evs2 = [] \<and> submits evs2 = []"
  proof (cases r1)
    case (Inl e)
    then show ?thesis using Cons.prems t
      by (intro exI[of _ w1] exI[of _ "Some (case raised of None \<Rightarrow> e | Some e0 \<Rightarrow> e0)"]
          exI[of _ "[]"]) simp
  next
    case (Inr m)
    show ?thesis
    proof (cases raised)
      case None
      then show ?thesis using Cons.prems t Inr
        by (intro exI[of _ "w1\<lparr>trace := trace w1 @ [LogPage (Suc m) n]\<rparr>"] exI[of _ None]
            exI[of _ "[LogPage (Suc m) n]"]) (simp add: and_then_def emit_def)
    next
      case (Some e0)
      then show ?thesis using Cons.prems t Inr
        by (intro exI[of _ w1] exI[of _ "Some e0"] exI[of _ "[]"]) simp
    qed
  qed
  then obtain w2 raised2 evs2 where
    l: "as_completed_loop (\<lambda>i. process_page E pdf_path i output_dir dpi img_format quality)
         n raised2 rest w2 = (w', r)"
    and e2: "trace w2 = trace w1 @ evs2" "calls evs2 = []" "submits evs2 = []"
    by blast
  from Cons.IH[OF l] obtain evs where "trace w' = trace w2 @ evs" "calls evs = rest" "submits evs = []"
    by blast
  then show ?case using e1 e2
    by (intro exI[of _ "evs1 @ evs2 @ evs"]) (simp add: calls_append submits_append)
qed

lemma zip_upt_nth:
  "length ds \<le> n \<Longrightarrow> zip [0..<n] ds = map (\<lambda>i. (i, ds ! i)) [0..<length ds]"
  by (rule nth_equalityI) simp_all

lemma in_page_order_context:
  assumes "in_page_order name n evs k ds emptied"
    and "calls pre = []" "submits pre = []" "page_effects pre = []"
    and "calls post = []" "submits post = []" "page_effects post = []"
  shows "in_page_order name n (pre @ evs @ post) k ds emptied"
  using assms by (simp add: in_page_order_def calls_append submits_append page_effects_append)


lemma run_pages_sequential_trace:
  assumes "run_pages E sched pdf_path output_dir dpi False max_workers img_format quality n w
             = (w', r)"
  shows "\<exists>evs k ds emptied. trace w' = trace w @ evs
     \<and> in_page_order (written_path pdf_path output_dir img_format) n evs k ds emptied
     \<and> (r = Inr () \<longrightarrow> length ds = n)
     \<and> (emptied \<longrightarrow> r = Inl EncodeError)"
proof -
  obtain w1 r1 where l: "sequential_loop
      (\<lambda>i. process_page E pdf_path i output_dir dpi img_format quality) n [0..<n] w = (w1, r1)"
    by (cases "sequential_loop
      (\<lambda>i. process_page E pdf_path i output_dir dpi img_format quality) n [0..<n] w")
  from sequential_loop_trace[OF l] obtain evs k ds emptied where
    t: "trace w1 = trace w @ evs" "calls evs = take k [0..<n]" "submits evs = []"
      "length ds \<le> k" "k \<le> Suc (length ds)" "k \<le> length [0..<n]"
      "r1 = Inr () \<longrightarrow> length ds = length [0..<n]"
      "emptied \<longrightarrow> r1 = Inl EncodeError \<and> k = Suc (length ds)"
      "page_effects evs =
         concat (map (\<lambda>(i, data).
           [FileWrite (written_path pdf_path output_dir img_format i) data, LogPage (Suc i) n])
           (zip [0..<n] ds)) @
         (if emptied
          then [FileEmptied (written_path pdf_path output_dir img_format ([0..<n] ! length ds))]
          else [])"
    by blast
  have len: "length ds \<le> n" using t(4,6) by simp
  have nth: "[0..<n] ! length ds = length ds" if emptied
  proof -
    have "length ds < n" using that t(6,8) by simp
    then show ?thesis by simp
  qed
  have ord: "in_page_order (written_path pdf_path output_dir img_format) n evs k ds emptied"
    unfolding in_page_order_def using t len nth
    by (simp add: zip_upt_nth[OF len] take_upt comp_def)
  show ?thesis
  proof (cases r1)
    case (Inl e)
    then have "w' = w1" "r = Inl e" using assms l by (simp_all add: run_pages_def and_then_def)
    then show ?thesis using t(1,8) ord Inl
      by (intro exI[of _ evs] exI[of _ k] exI[of _ ds] exI[of _ emptied]) simp
  next
    case (Inr u)
    then have w': "w' = w1\<lparr>trace := trace w1 @ [LogTotal]\<rparr>" "r = Inr ()"
      using assms l by (simp_all add: run_pages_def and_then_def emit_def)
    have ne: "\<not> emptied" using t(8) Inr by auto
    have "in_page_order (written_path pdf_path output_dir img_format) n ([] @ evs @ [LogTotal])
        k ds emptied"
      using ord by (rule in_page_order_context) simp_all
    then show ?thesis using w' t(1,7) Inr ne
      by (intro exI[of _ "evs @ [LogTotal]"] exI[of _ k] exI[of _ ds] exI[of _ emptied]) simp
  qed
qed


lemma upt_3: "[0..<3] = [0, 1, 2]"
  by (simp add: upt_rec)

lemma sample_count: "probed_page_count sample_env sample_world ''sample.pdf'' = 3"
  by (simp add: probed_page_count_def sample_env_def sample_world_def)

lemma sample_written_path:
  "i < 9 \<Longrightarrow> written_path ''sample.pdf'' ''out'' ''png'' i = ''out/sample_'' @ [digit_char (Suc i)] @ ''.png''"
  by (simp add: written_path_def named_output_def sample_stem str_small path_join_def
      lower_supported)

lemma sample_page_outcome:
  assumes "fs ''sample.pdf'' = Some [37, 80, 68, 70]" "i < 3"
  shows "page_outcome sample_env fs ''sample.pdf'' i ''out'' 150 ''png'' 80 =
    Inr [80, 1, of_nat i, 0, 0]"
proof -
  have "i \<in> set [0..<3]" using assms(2) by simp
  then have i: "i = 0 \<or> i = 1 \<or> i = 2" unfolding upt_3 by simp
  have cw: "can_write sample_env (written_path ''sample.pdf'' ''out'' ''png'' i)"
    using assms(2) by (simp add: sample_written_path sample_env_def)
  have r: "fitz_render sample_env ([0, 1, 2] ! i) 150 =
      Some \<lparr>width = 1, height = 1, samples = [of_nat i, 0, 0]\<rparr>"
    using i by (auto simp: sample_env_def)
  have p: "fitz_parse sample_env [37, 80, 68, 70] = Some [0, 1, 2]"
    by (simp add: sample_env_def)
  have e: "pil_encode sample_env \<lparr>width = 1, height = 1, samples = [of_nat i, 0, 0]\<rparr>
      (SavePNG False 1) = Some [80, 1, of_nat i, 0, 0]"
    by (simp add: sample_env_def)
  show ?thesis
    using assms cw r p e
    by (simp add: page_outcome_def write_outcome_def save_args_for_def lower_supported)
qed


section \<open>Sequential mode works through the pages in order\<close>



section \<open>Completion orders and output names\<close>

lemma completion_order_set: "set (completion_order sched pending) = set pending"
proof (induction sched pending rule: completion_order.induct)
  case (3 k sched v va)
  let ?p = "v # va"
  let ?j = "k mod length ?p"
  have j: "?j < length ?p" by simp
  have "set ?p = set (take ?j ?p @ ?p ! ?j # drop (Suc ?j) ?p)"
    using id_take_nth_drop[OF j] by simp
  then have "set ?p = insert (?p ! ?j) (set (take ?j ?p @ drop (Suc ?j) ?p))" by simp
  then show ?case using 3 by (simp add: Let_def)
qed simp_all

lemma completion_order_distinct:
  "distinct pending \<Longrightarrow> distinct (completion_order sched pending)"
proof (induction sched pending rule: completion_order.induct)
  case (3 k sched v va)
  let ?p = "v # va"
  let ?j = "k mod length ?p"
  have j: "?j < length ?p" by simp
  have "distinct (take ?j ?p @ ?p ! ?j # drop (Suc ?j) ?p)"
    using id_take_nth_drop[OF j] "3.prems" by simp
  then have d: "distinct (take ?j ?p @ drop (Suc ?j) ?p)"
    and n: "?p ! ?j \<notin> set (take ?j ?p @ drop (Suc ?j) ?p)"
    by auto
  show ?case using "3.IH"[OF refl d] n
    by (simp add: Let_def completion_order_set)
qed simp_all

lemma named_output_prefixed:
  "named_output output_dir pdf_path page_num ext =
     join_prefix output_dir @ fst (splitext (basename pdf_path)) @ CHR ''_'' #
       str (page_num + 1) @ CHR ''.'' # ext"
  using hd_name[OF stem_no_sep, of pdf_path "str (page_num + 1) @ CHR ''.'' # ext"]
  by (simp add: named_output_def path_join_prefix)

lemma named_output_inj:
  assumes "named_output output_dir pdf_path i ext = named_output output_dir pdf_path j ext"
  shows "i = j"
proof -
  have "str (i + 1) @ CHR ''.'' # ext = str (j + 1) @ CHR ''.'' # ext"
    using assms unfolding named_output_prefixed by simp
  then have "str (i + 1) = str (j + 1)" by simp
  then have "i + 1 = j + 1" by (rule str_inj)
  then show ?thesis by simp
qed

lemma written_path_inj:
  "written_path pdf_path output_dir img_format i = written_path pdf_path output_dir img_format j
     \<Longrightarrow> i = j"
  unfolding written_path_def by (rule named_output_inj)

lemma named_output_not_input:
  assumes "CHR ''/'' \<notin> set ext"
  shows "named_output output_dir pdf_path page_num ext \<noteq> pdf_path"
proof
  let ?stem = "fst (splitext (basename pdf_path))"
  let ?tail = "CHR ''_'' # str (page_num + 1) @ CHR ''.'' # ext"
  assume eq: "named_output output_dir pdf_path page_num ext = pdf_path"
  have nosep: "CHR ''/'' \<notin> set (?stem @ ?tail)"
    using stem_no_sep[of pdf_path] str_no_sep[of "page_num + 1"] assms by simp
  have "basename (join_prefix output_dir @ ?stem @ ?tail) = ?stem @ ?tail"
    using nosep by (rule basename_prefixed)
  then have "basename pdf_path = ?stem @ ?tail"
    using eq unfolding named_output_prefixed by simp
  then have "?stem @ snd (splitext (basename pdf_path)) = ?stem @ ?tail"
    using splitext_append[of "basename pdf_path"] by simp
  then have "snd (splitext (basename pdf_path)) = ?tail" by simp
  then show False using splitext_ext_cases[of "basename pdf_path"] by simp
qed

lemma written_path_not_input:
  assumes "CHR ''/'' \<notin> set img_format"
  shows "written_path pdf_path output_dir img_format page_num \<noteq> pdf_path"
  unfolding written_path_def using assms by (intro named_output_not_input) simp

section \<open>The stages of a run\<close>

lemma submits_map_Submit: "submits (map Submit xs) = xs"
  by (induction xs) simp_all

lemma calls_map_Submit: "calls (map Submit xs) = []"
  by (induction xs) simp_all

lemma run_pages_calls:
  assumes "run_pages E sched pdf_path output_dir dpi parallel max_workers img_format quality n w
             = (w', r)"
  shows "\<exists>evs. trace w' = trace w @ evs
     \<and> distinct (calls evs) \<and> set (calls evs) \<subseteq> {0..<n}
     \<and> (r = Inr () \<longrightarrow> set (calls evs) = {0..<n})
     \<and> (submits evs = [] \<or> parallel \<and> submits evs = [0..<n] \<and> set (calls evs) = {0..<n})"
proof (cases parallel)
  case False
  have "run_pages E sched pdf_path output_dir dpi False max_workers img_format quality n w
      = (w', r)"
    using assms False by simp
  from run_pages_sequential_trace[OF this] obtain evs k ds emptied where
    t: "trace w' = trace w @ evs"
      "in_page_order (written_path pdf_path output_dir img_format) n evs k ds emptied"
      "r = Inr () \<longrightarrow> length ds = n"
    by blast
  from t(2) have o: "length ds \<le> k" "k \<le> n" "calls evs = [0..<k]" "submits evs = []"
    by (simp_all add: in_page_order_def)
  have "r = Inr () \<longrightarrow> k = n" using t(3) o(1,2) by auto
  then show ?thesis using t(1) o by (intro exI[of _ evs]) auto
next
  case True
  show ?thesis
  proof (cases "\<exists>j. max_workers = Some j \<and> j \<le> 0")
    case bad: True
    then have "w' = w" "r = Inl PoolError"
      using assms True by (auto simp: run_pages_def and_then_def pool_create_def raise_def)
    then show ?thesis by (intro exI[of _ "[]"]) simp
  next
    case ok: False
    let ?w1 = "w\<lparr>trace := trace w @ map Submit [0..<n]\<rparr>"
    let ?order = "completion_order sched [0..<n]"
    have pool: "pool_create max_workers w = (w, Inr ())"
      using ok by (cases max_workers) (auto simp: pool_create_def return_ok_def)
    obtain w2 r2 where l: "as_completed_loop
        (\<lambda>i. process_page E pdf_path i output_dir dpi img_format quality) n None ?order ?w1
        = (w2, r2)"
      by (cases "as_completed_loop
        (\<lambda>i. process_page E pdf_path i output_dir dpi img_format quality) n None ?order ?w1")
    from as_completed_loop_trace[OF l] obtain evs where
      t: "trace w2 = trace w @ map Submit [0..<n] @ evs" "calls evs = ?order" "submits evs = []"
      by auto
    have fin: "\<exists>post. trace w' = trace w2 @ post \<and> calls post = [] \<and> submits post = []"
      using assms True pool l
      by (cases r2) (auto simp: run_pages_def and_then_def submit_all_def emit_def)
    then obtain post where p: "trace w' = trace w2 @ post" "calls post = []" "submits post = []"
      by blast
    have "distinct ?order" by (rule completion_order_distinct) simp
    moreover have "set ?order = {0..<n}" by (simp add: completion_order_set)
    ultimately show ?thesis using t p True
      by (intro exI[of _ "map Submit [0..<n] @ evs @ post"])
        (simp add: calls_append submits_append submits_map_Submit calls_map_Submit)
  qed
qed

lemma probe_and_run_stages:
  assumes "probe_and_run E sched pdf_path output_dir dpi parallel max_workers img_format quality w
             = (w', r)"
  shows "(w' = w \<and> r = Inl DocumentOpenError)
       \<or> (\<exists>content doc w0 pre. files w pdf_path = Some content \<and> fitz_parse E content = Some doc
            \<and> trace w0 = trace w @ pre \<and> calls pre = [] \<and> submits pre = []
            \<and> file_writes pre = [] \<and> files w0 = files w \<and> dirs w0 = dirs w
            \<and> run_pages E sched pdf_path output_dir dpi parallel max_workers img_format quality
                 (length doc) w0 = (w', r))"
proof (cases "\<exists>content doc. files w pdf_path = Some content \<and> fitz_parse E content = Some doc")
  case False
  then have "w' = w" "r = Inl DocumentOpenError"
    using assms unfolding probe_and_run_run by (auto split: option.splits)
  then show ?thesis by simp
next
  case True
  then obtain content doc where d: "files w pdf_path = Some content"
    "fitz_parse E content = Some doc"
    by blast
  let ?p = "[DocOpen (next_handle w) pdf_path, DocClose (next_handle w),
             LogStart (length doc) parallel]"
  let ?w0 = "w\<lparr>next_handle := Suc (next_handle w), trace := trace w @ ?p\<rparr>"
  have "run_pages E sched pdf_path output_dir dpi parallel max_workers img_format quality
      (length doc) ?w0 = (w', r)"
    using assms d unfolding probe_and_run_run by simp
  moreover have "trace ?w0 = trace w @ ?p" "calls ?p = []" "submits ?p = []" "file_writes ?p = []"
    "files ?w0 = files w" "dirs ?w0 = dirs w"
    by simp_all
  ultimately show ?thesis using d
    by (intro disjI2 exI[of _ content] exI[of _ doc] exI[of _ ?w0] exI[of _ ?p]) blast
qed

text \<open>The run up to the pages: either it ends before them, or the pages run on a state
  with the same files.\<close>

lemma pdf_to_jpeg_stages:
  assumes "pdf_to_jpeg E sched pdf_path output_dir dpi parallel max_workers img_format quality w
             = (w', r)"
  shows "(\<exists>pre. trace w' = trace w @ pre \<and> calls pre = [] \<and> submits pre = []
            \<and> file_writes pre = [] \<and> files w' = files w
            \<and> (r = Inl IOError \<or> r = Inl DocumentOpenError))
       \<or> (\<exists>content doc w0 pre. files w pdf_path = Some content \<and> fitz_parse E content = Some doc
            \<and> trace w0 = trace w @ pre \<and> calls pre = [] \<and> submits pre = []
            \<and> file_writes pre = [] \<and> files w0 = files w
            \<and> (dirs w0 = dirs w \<or> dirs w0 = insert output_dir (dirs w))
            \<and> (output_dir \<in> dirs w0 \<or> files w0 output_dir \<noteq> None)
            \<and> run_pages E sched pdf_path output_dir dpi parallel max_workers img_format quality
                 (length doc) w0 = (w', r))"
proof -
  have step: ?thesis
    if pr: "probe_and_run E sched pdf_path output_dir dpi parallel max_workers img_format
        quality w1 = (w', r)"
      and w1: "trace w1 = trace w @ d" "calls d = []" "submits d = []" "file_writes d = []"
        "files w1 = files w" "dirs w1 = dirs w \<or> dirs w1 = insert output_dir (dirs w)"
        "output_dir \<in> dirs w1 \<or> files w1 output_dir \<noteq> None"
    for w1 d
    using probe_and_run_stages[OF pr]
  proof
    assume "w' = w1 \<and> r = Inl DocumentOpenError"
    then show ?thesis using w1 by (intro disjI1 exI[of _ d]) simp
  next
    assume "\<exists>content doc w0 pre. files w1 pdf_path = Some content \<and>
        fitz_parse E content = Some doc \<and> trace w0 = trace w1 @ pre \<and> calls pre = [] \<and>
        submits pre = [] \<and> file_writes pre = [] \<and> files w0 = files w1 \<and> dirs w0 = dirs w1 \<and>
        run_pages E sched pdf_path output_dir dpi parallel max_workers img_format quality
          (length doc) w0 = (w', r)"
    then obtain content doc w0 pre where
      s: "files w1 pdf_path = Some content" "fitz_parse E content = Some doc"
        "trace w0 = trace w1 @ pre" "calls pre = []" "submits pre = []" "file_writes pre = []"
        "files w0 = files w1" "dirs w0 = dirs w1"
        "run_pages E sched pdf_path output_dir dpi parallel max_workers img_format quality
          (length doc) w0 = (w', r)"
      by blast
    have "trace w0 = trace w @ (d @ pre)" "calls (d @ pre) = []" "submits (d @ pre) = []"
      "file_writes (d @ pre) = []"
      using s w1 by (simp_all add: calls_append submits_append file_writes_append)
    moreover have "files w pdf_path = Some content" "files w0 = files w"
      "dirs w0 = dirs w \<or> dirs w0 = insert output_dir (dirs w)"
      "output_dir \<in> dirs w0 \<or> files w0 output_dir \<noteq> None"
      using s w1 by simp_all
    ultimately show ?thesis using s(2,9)
      by (intro disjI2 exI[of _ content] exI[of _ doc] exI[of _ w0] exI[of _ "d @ pre"]) blast
  qed
  show ?thesis
  proof (cases "output_dir \<in> dirs w \<or> files w output_dir \<noteq> None")
    case True
    then have "probe_and_run E sched pdf_path output_dir dpi parallel max_workers img_format
        quality w = (w', r)"
      using assms unfolding pdf_to_jpeg_run by simp
    then show ?thesis by (rule step[where d = "[]"]) (use True in simp_all)
  next
    case False
    show ?thesis
    proof (cases "can_mkdir E output_dir")
      case no: False
      then have "w' = w" "r = Inl IOError" using assms False unfolding pdf_to_jpeg_run by simp_all
      then show ?thesis by (intro disjI1 exI[of _ "[]"]) simp
    next
      case True
      then have "probe_and_run E sched pdf_path output_dir dpi parallel max_workers img_format
          quality (w\<lparr>dirs := insert output_dir (dirs w), trace := trace w @ [Mkdir output_dir]\<rparr>)
          = (w', r)"
        using assms False unfolding pdf_to_jpeg_run by simp
      then show ?thesis by (rule step[where d = "[Mkdir output_dir]"]) simp_all
    qed
  qed
qed

section \<open>No page index is out of range\<close>

lemma write_outcome_errors:
  "write_outcome E img p img_format quality = Inl e \<Longrightarrow> e = EncodeError \<or> e = IOError"
  by (auto simp: write_outcome_def split: if_splits option.splits)

lemma process_page_no_index_error:
  assumes "files v pdf_path = Some content" "fitz_parse E content = Some doc" "i < length doc"
  shows "snd (process_page E pdf_path i output_dir dpi img_format quality v) \<noteq> Inl PageIndexError"
proof
  assume a: "snd (process_page E pdf_path i output_dir dpi img_format quality v) = Inl PageIndexError"
  then have "process_page E pdf_path i output_dir dpi img_format quality v =
      (fst (process_page E pdf_path i output_dir dpi img_format quality v), Inl PageIndexError)"
    by (metis prod.collapse)
  then have "page_outcome E (files v) pdf_path i output_dir dpi img_format quality = Inl PageIndexError"
    by (rule process_page_failure(1))
  then show False
    using assms write_outcome_errors[of E _ _ img_format quality PageIndexError]
    by (auto simp: page_outcome_def split: option.splits)
qed

lemma process_page_keeps_input:
  assumes "CHR ''/'' \<notin> set img_format"
    and "process_page E pdf_path i output_dir dpi img_format quality w = (w', r)"
  shows "files w' pdf_path = files w pdf_path"
  using assms(2) written_path_not_input[OF assms(1), of pdf_path output_dir i]
  unfolding process_page_run by (auto split: sum.splits if_splits)

lemma sequential_loop_no_index_error:
  assumes "CHR ''/'' \<notin> set img_format"
    and "files w pdf_path = Some content" "fitz_parse E content = Some doc"
    and "\<forall>i\<in>set pages. i < length doc"
    and "sequential_loop (\<lambda>i. process_page E pdf_path i output_dir dpi img_format quality)
           n pages w = (w', r)"
  shows "r \<noteq> Inl PageIndexError"
  using assms(2,4,5)
proof (induction pages arbitrary: w)
  case Nil
  then show ?case by (auto simp: return_ok_def)
next
  case (Cons i rest)
  obtain w1 r1 where t: "process_page E pdf_path i output_dir dpi img_format quality w = (w1, r1)"
    by (cases "process_page E pdf_path i output_dir dpi img_format quality w")
  have i: "i < length doc" using Cons.prems(2) by simp
  have ne: "r1 \<noteq> Inl PageIndexError"
    using process_page_no_index_error[OF Cons.prems(1) assms(3) i, of output_dir dpi img_format quality] t
    by simp
  have keep: "files w1 pdf_path = Some content"
    using process_page_keeps_input[OF assms(1) t] Cons.prems(1) by simp
  show ?case
  proof (cases r1)
    case (Inl e)
    then have "r = Inl e" using Cons.prems(3) t by (simp add: and_then_def)
    then show ?thesis using ne Inl by simp
  next
    case (Inr m)
    then have l2: "sequential_loop (\<lambda>i. process_page E pdf_path i output_dir dpi img_format quality)
        n rest (w1\<lparr>trace := trace w1 @ [LogPage (Suc m) n]\<rparr>) = (w', r)"
      using Cons.prems(3) t by (simp add: and_then_def emit_def)
    have f2: "files (w1\<lparr>trace := trace w1 @ [LogPage (Suc m) n]\<rparr>) pdf_path = Some content"
      using keep by simp
    have r2: "\<forall>i\<in>set rest. i < length doc" using Cons.prems(2) by simp
    show ?thesis using f2 r2 l2 by (rule Cons.IH)
  qed
qed

lemma as_completed_loop_no_index_error:
  assumes "CHR ''/'' \<notin> set img_format"
    and "files w pdf_path = Some content" "fitz_parse E content = Some doc"
    and "\<forall>i\<in>set pages. i < length doc"
    and "raised \<noteq> Some PageIndexError"
    and "as_completed_loop (\<lambda>i. process_page E pdf_path i output_dir dpi img_format quality)
           n raised pages w = (w', r)"
  shows "r \<noteq> Inl PageIndexError"
  using assms(2,4,5,6)
proof (induction pages arbitrary: w raised)
  case Nil
  then show ?case by (auto simp: return_ok_def raise_def split: option.splits)
next
  case (Cons i rest)
  obtain w1 r1 where t: "process_page E pdf_path i output_dir dpi img_format quality w = (w1, r1)"
    by (cases "process_page E pdf_path i output_dir dpi img_format quality w")
  have i: "i < length doc" using Cons.prems(2) by simp
  have ne: "r1 \<noteq> Inl PageIndexError"
    using process_page_no_index_error[OF Cons.prems(1) assms(3) i, of output_dir dpi img_format quality] t
    by simp
  have keep: "files w1 pdf_path = Some content"
    using process_page_keeps_input[OF assms(1) t] Cons.prems(1) by simp
  have "\<exists>w2 raised2. files w2 pdf_path = Some content \<and> raised2 \<noteq> Some PageIndexError \<and>
      as_completed_loop (\<lambda>i. process_page E pdf_path i output_dir dpi img_format quality)
        n raised2 rest w2 = (w', r)"
  proof (cases r1)
    case (Inl e)
    then show ?thesis using Cons.prems(3,4) t ne keep
      by (intro exI[of _ w1] exI[of _ "Some (case raised of None \<Rightarrow> e | Some e0 \<Rightarrow> e0)"])
        (auto split: option.splits)
  next
    case (Inr m)
    show ?thesis
    proof (cases raised)
      case None
      then show ?thesis using Cons.prems(4) t Inr keep
        by (intro exI[of _ "w1\<lparr>trace := trace w1 @ [LogPage (Suc m) n]\<rparr>"] exI[of _ None])
          (simp add: and_then_def emit_def)
    next
      case (Some e0)
      then show ?thesis using Cons.prems(3,4) t Inr keep
        by (intro exI[of _ w1] exI[of _ "Some e0"]) simp
    qed
  qed
  then obtain w2 raised2 where f2: "files w2 pdf_path = Some content"
    and ra2: "raised2 \<noteq> Some PageIndexError"
    and l2: "as_completed_loop (\<lambda>i. process_page E pdf_path i output_dir dpi img_format quality)
        n raised2 rest w2 = (w', r)"
    by blast
  have r2: "\<forall>i\<in>set rest. i < length doc" using Cons.prems(2) by simp
  show ?case using f2 r2 ra2 l2 by (rule Cons.IH)
qed

lemma run_pages_no_index_error:
  assumes "CHR ''/'' \<notin> set img_format"
    and "files w pdf_path = Some content" "fitz_parse E content = Some doc"
    and "run_pages E sched pdf_path output_dir dpi parallel max_workers img_format quality
           (length doc) w = (w', r)"
  shows "r \<noteq> Inl PageIndexError"
proof (cases parallel)
  case False
  obtain w1 r1 where l: "sequential_loop
      (\<lambda>i. process_page E pdf_path i output_dir dpi img_format quality) (length doc)
      [0..<length doc] w = (w1, r1)"
    by (cases "sequential_loop
      (\<lambda>i. process_page E pdf_path i output_dir dpi img_format quality) (length doc)
      [0..<length doc] w")
  have "r1 \<noteq> Inl PageIndexError"
    using assms(1,2,3) _ l by (rule sequential_loop_no_index_error) simp
  then show ?thesis using assms(4) False l
    by (cases r1) (auto simp: run_pages_def and_then_def emit_def)
next
  case True
  show ?thesis
  proof (cases "\<exists>j. max_workers = Some j \<and> j \<le> 0")
    case bad: True
    then have "r = Inl PoolError"
      using assms(4) True by (auto simp: run_pages_def and_then_def pool_create_def raise_def)
    then show ?thesis by simp
  next
    case ok: False
    let ?w1 = "w\<lparr>trace := trace w @ map Submit [0..<length doc]\<rparr>"
    let ?order = "completion_order sched [0..<length doc]"
    have pool: "pool_create max_workers w = (w, Inr ())"
      using ok by (cases max_workers) (auto simp: pool_create_def return_ok_def)
    obtain w2 r2 where l: "as_completed_loop
        (\<lambda>i. process_page E pdf_path i output_dir dpi img_format quality) (length doc) None
        ?order ?w1 = (w2, r2)"
      by (cases "as_completed_loop
        (\<lambda>i. process_page E pdf_path i output_dir dpi img_format quality) (length doc) None
        ?order ?w1")
    have f: "files ?w1 pdf_path = Some content" using assms(2) by simp
    have "r2 \<noteq> Inl PageIndexError"
      using assms(1) f assms(3) _ _ l
      by (rule as_completed_loop_no_index_error) (simp_all add: completion_order_set)
    then show ?thesis using assms(4) True pool l
      by (cases r2) (auto simp: run_pages_def and_then_def submit_all_def emit_def)
  qed
qed

lemma sample_order: "completion_order [5, 1] [0, 1, 2 :: nat] = [2, 1, 0]"
  by (simp add: Let_def)

lemma sample_run_parallel:
  "pdf_to_jpeg sample_env [5, 1] ''sample.pdf'' ''out'' 150 True (Some 2) ''png'' 80 sample_world =
     (sample_world\<lparr>files := (files sample_world)
          (''out/sample_3.png'' \<mapsto> [80, 1, 2, 0, 0],
           ''out/sample_2.png'' \<mapsto> [80, 1, 1, 0, 0],
           ''out/sample_1.png'' \<mapsto> [80, 1, 0, 0, 0]),
        dirs := {''out''}, next_handle := 4,
        trace := [Mkdir ''out'', DocOpen 0 ''sample.pdf'', DocClose 0, LogStart 3 True,
          Submit 0, Submit 1, Submit 2,
          Call 2, DocOpen 1 ''sample.pdf'', FileWrite ''out/sample_3.png'' [80, 1, 2, 0, 0],
          DocClose 1, LogPage 3 3,
          Call 1, DocOpen 2 ''sample.pdf'', FileWrite ''out/sample_2.png'' [80, 1, 1, 0, 0],
          DocClose 2, LogPage 2 3,
          Call 0, DocOpen 3 ''sample.pdf'', FileWrite ''out/sample_1.png'' [80, 1, 0, 0, 0],
          DocClose 3, LogPage 1 3,
          LogTotal]\<rparr>, Inr ())"
proof -
  have f: "files sample_world ''sample.pdf'' = Some [37, 80, 68, 70]"
    "files sample_world ''out'' = None" "dirs sample_world = {}"
    "next_handle sample_world = 0" "trace sample_world = []"
    by (simp_all add: sample_world_def)
  have p: "fitz_parse sample_env [37, 80, 68, 70] = Some [0, 1, 2]"
    "can_mkdir sample_env ''out''"
    by (simp_all add: sample_env_def)
  show ?thesis
    unfolding pdf_to_jpeg_run probe_and_run_run
    by (simp add: f p run_pages_def upt_3 sample_order pool_create_def submit_all_def
        and_then_def emit_def return_ok_def process_page_run
        sample_page_outcome sample_written_path digit_char_def)
qed

section \<open>Every page index is handed over once, and is in range\<close>

text \<open>
  Claim C6. In every run of \<open>pdf_to_jpeg\<close>, in either mode, the page indices with which
  \<open>process_page\<close> is entered are pairwise distinct and lie below the page count that the
  probe read; a run that returns has entered it for every index below that count. In
  parallel mode the indices submitted to the pool are \<open>0, ..., page_count - 1\<close>, each
  once, and each of them is run (none is submitted when the run ends before the pool
  exists). A call of \<open>process_page\<close> with such an index, on any state in which the file at
  \<open>pdf_path\<close> is the one the probe read, does not raise the page index error; and a whole
  run does not end in it when the format string holds no path separator, which is what
  keeps a page's output file from being the PDF itself.
\<close>

theorem c6_each_page_handed_over_once_and_in_range:
  assumes run: "pdf_to_jpeg E sched pdf_path output_dir dpi parallel max_workers img_format quality w
             = (w', r)"
  shows "distinct (calls (new_events w w'))
       \<and> set (calls (new_events w w')) \<subseteq> {0..<probed_page_count E w pdf_path}
       \<and> (r = Inr () \<longrightarrow> set (calls (new_events w w')) = {0..<probed_page_count E w pdf_path})
       \<and> (submits (new_events w w') = []
            \<or> parallel \<and> submits (new_events w w') = [0..<probed_page_count E w pdf_path]
               \<and> set (calls (new_events w w')) = {0..<probed_page_count E w pdf_path})
       \<and> (\<forall>i<probed_page_count E w pdf_path. \<forall>v::world. files v pdf_path = files w pdf_path \<longrightarrow>
             snd (process_page E pdf_path i output_dir dpi img_format quality v)
               \<noteq> Inl PageIndexError)
       \<and> (CHR ''/'' \<notin> set img_format \<longrightarrow> r \<noteq> Inl PageIndexError)"
proof -
  let ?n = "probed_page_count E w pdf_path"
  have per_call: "\<forall>i<?n. \<forall>v::world. files v pdf_path = files w pdf_path \<longrightarrow>
      snd (process_page E pdf_path i output_dir dpi img_format quality v) \<noteq> Inl PageIndexError"
  proof (intro allI impI)
    fix i and v :: world
    assume i: "i < ?n" and v: "files v pdf_path = files w pdf_path"
    from i obtain content doc where d: "files w pdf_path = Some content"
      "fitz_parse E content = Some doc" "?n = length doc"
      by (auto simp: probed_page_count_def split: option.splits)
    show "snd (process_page E pdf_path i output_dir dpi img_format quality v) \<noteq> Inl PageIndexError"
      using d i v by (intro process_page_no_index_error[where content = content and doc = doc]) simp_all
  qed
  from pdf_to_jpeg_stages[OF run] show ?thesis
  proof
    assume "\<exists>pre. trace w' = trace w @ pre \<and> calls pre = [] \<and> submits pre = [] \<and>
        file_writes pre = [] \<and> files w' = files w \<and>
        (r = Inl IOError \<or> r = Inl DocumentOpenError)"
    then obtain pre where "trace w' = trace w @ pre" "calls pre = []" "submits pre = []"
      "r = Inl IOError \<or> r = Inl DocumentOpenError"
      by blast
    then show ?thesis using per_call by (auto simp: new_events_def)
  next
    assume "\<exists>content doc w0 pre. files w pdf_path = Some content \<and>
        fitz_parse E content = Some doc \<and> trace w0 = trace w @ pre \<and> calls pre = [] \<and>
        submits pre = [] \<and> file_writes pre = [] \<and> files w0 = files w \<and>
        (dirs w0 = dirs w \<or> dirs w0 = insert output_dir (dirs w)) \<and>
        (output_dir \<in> dirs w0 \<or> files w0 output_dir \<noteq> None) \<and>
        run_pages E sched pdf_path output_dir dpi parallel max_workers img_format quality
          (length doc) w0 = (w', r)"
    then obtain content doc w0 pre where
      s: "files w pdf_path = Some content" "fitz_parse E content = Some doc"
        "trace w0 = trace w @ pre" "calls pre = []" "submits pre = []" "files w0 = files w"
        "run_pages E sched pdf_path output_dir dpi parallel max_workers img_format quality
          (length doc) w0 = (w', r)"
      by blast
    have n: "?n = length doc" using s(1,2) by (simp add: probed_page_count_def)
    from run_pages_calls[OF s(7)] obtain evs where
      e: "trace w' = trace w0 @ evs" "distinct (calls evs)" "set (calls evs) \<subseteq> {0..<length doc}"
        "r = Inr () \<longrightarrow> set (calls evs) = {0..<length doc}"
        "submits evs = [] \<or> parallel \<and> submits evs = [0..<length doc]
           \<and> set (calls evs) = {0..<length doc}"
      by blast
    have ne: "new_events w w' = pre @ evs" using e(1) s(3) by (simp add: new_events_def)
    have c: "calls (new_events w w') = calls evs" "submits (new_events w w') = submits evs"
      unfolding ne using s(4,5) by (simp_all add: calls_append submits_append)
    have idx: "CHR ''/'' \<notin> set img_format \<longrightarrow> r \<noteq> Inl PageIndexError"
    proof
      assume nosep: "CHR ''/'' \<notin> set img_format"
      have "files w0 pdf_path = Some content" using s(1,6) by simp
      with nosep show "r \<noteq> Inl PageIndexError"
        using s(2,7) by (rule run_pages_no_index_error)
    qed
    show ?thesis unfolding c n[symmetric] using e(2-5) per_call idx unfolding n by blast
  qed
qed

theorem c6_witness:
  "CHR ''/'' \<notin> set ''png''
   \<and> snd (pdf_to_jpeg sample_env [5, 1] ''sample.pdf'' ''out'' 150 True (Some 2) ''png'' 80
        sample_world) = Inr ()
   \<and> distinct (calls (new_events sample_world
        (fst (pdf_to_jpeg sample_env [5, 1] ''sample.pdf'' ''out'' 150 True (Some 2) ''png'' 80
           sample_world))))
   \<and> set (calls (new_events sample_world
        (fst (pdf_to_jpeg sample_env [5, 1] ''sample.pdf'' ''out'' 150 True (Some 2) ''png'' 80
           sample_world)))) = {0..<3}
   \<and> submits (new_events sample_world
        (fst (pdf_to_jpeg sample_env [5, 1] ''sample.pdf'' ''out'' 150 True (Some 2) ''png'' 80
           sample_world))) = [0..<3]
   \<and> snd (process_page sample_env ''sample.pdf'' 2 ''out'' 150 ''png'' 80 sample_world)
        \<noteq> Inl PageIndexError"
proof -
  let ?run = "pdf_to_jpeg sample_env [5, 1] ''sample.pdf'' ''out'' 150 True (Some 2) ''png'' 80
    sample_world"
  have nosep: "CHR ''/'' \<notin> set ''png''" by simp
  have r: "snd ?run = Inr ()" unfolding sample_run_parallel by simp
  have run: "?run = (fst ?run, Inr ())" using r by (metis prod.collapse)
  have sub: "submits (new_events sample_world (fst ?run)) \<noteq> []"
    unfolding sample_run_parallel sample_new_events by simp
  have two: "(2::nat) < 3" by simp
  show ?thesis
    using c6_each_page_handed_over_once_and_in_range[OF run] nosep r sub two
    unfolding sample_count by blast
qed

section \<open>Running twice\<close>

lemma page_outcome_cong:
  "fs pdf_path = fs' pdf_path \<Longrightarrow>
   page_outcome E fs pdf_path i output_dir dpi img_format quality =
   page_outcome E fs' pdf_path i output_dir dpi img_format quality"
  by (simp add: page_outcome_def)

text \<open>What a page that returned has done to the files.\<close>

lemma process_page_step:
  assumes "process_page E pdf_path i output_dir dpi img_format quality w = (w1, Inr m)"
  obtains data evs where
    "page_outcome E (files w) pdf_path i output_dir dpi img_format quality = Inr data"
    "files w1 = (files w)(written_path pdf_path output_dir img_format i \<mapsto> data)"
    "dirs w1 = dirs w" "trace w1 = trace w @ evs"
    "file_writes evs = [(written_path pdf_path output_dir img_format i, data)]"
proof -
  from assms obtain data where
    d: "page_outcome E (files w) pdf_path i output_dir dpi img_format quality = Inr data"
    and w1: "w1 = w\<lparr>files := (files w)(written_path pdf_path output_dir img_format i \<mapsto> data),
             next_handle := Suc (next_handle w),
             trace := trace w @
               [Call i, DocOpen (next_handle w) pdf_path,
                FileWrite (written_path pdf_path output_dir img_format i) data,
                DocClose (next_handle w)]\<rparr>"
    by (rule process_page_success)
  show ?thesis
    by (rule that[OF d, of "[Call i, DocOpen (next_handle w) pdf_path,
                FileWrite (written_path pdf_path output_dir img_format i) data,
                DocClose (next_handle w)]"]) (simp_all add: w1)
qed

lemma pages_written_Nil: "pages_written E pdf_path output_dir dpi img_format quality [] fs fs"
  by (simp add: pages_written_def)

lemma pages_written_Cons:
  assumes nosep: "CHR ''/'' \<notin> set img_format"
    and d: "page_outcome E fs pdf_path i output_dir dpi img_format quality = Inr data"
    and rest: "pages_written E pdf_path output_dir dpi img_format quality rest
      (fs(written_path pdf_path output_dir img_format i \<mapsto> data)) fs'"
    and i: "i \<notin> set rest"
  shows "pages_written E pdf_path output_dir dpi img_format quality (i # rest) fs fs'"
proof -
  let ?P = "written_path pdf_path output_dir img_format"
  let ?fs1 = "fs(?P i \<mapsto> data)"
  have ne: "?P i \<noteq> pdf_path" using nosep by (rule written_path_not_input)
  have same: "?fs1 pdf_path = fs pdf_path" using ne by simp
  have out: "?P i \<notin> ?P ` set rest" using i written_path_inj by blast
  from rest have r1: "fs' pdf_path = ?fs1 pdf_path"
    and r2: "\<forall>j\<in>set rest. \<exists>data'.
        page_outcome E ?fs1 pdf_path j output_dir dpi img_format quality = Inr data' \<and>
        fs' (?P j) = Some data'"
    and r3: "\<forall>p. ?fs1 p \<noteq> None \<longrightarrow> fs' p \<noteq> None"
    and r4: "\<forall>p. p \<notin> ?P ` set rest \<longrightarrow> fs' p = ?fs1 p"
    by (simp_all add: pages_written_def)
  have c1: "fs' pdf_path = fs pdf_path" using r1 same by simp
  have c2: "\<forall>j\<in>set (i # rest). \<exists>data'.
        page_outcome E fs pdf_path j output_dir dpi img_format quality = Inr data' \<and>
        fs' (?P j) = Some data'"
  proof
    fix j assume "j \<in> set (i # rest)"
    then consider "j = i" | "j \<in> set rest" by auto
    then show "\<exists>data'. page_outcome E fs pdf_path j output_dir dpi img_format quality = Inr data' \<and>
        fs' (?P j) = Some data'"
    proof cases
      case 1
      have "fs' (?P i) = ?fs1 (?P i)" using r4 out by blast
      then show ?thesis using d 1 by simp
    next
      case 2
      then show ?thesis
        using r2 page_outcome_cong[where fs = ?fs1 and fs' = fs and pdf_path = pdf_path
            and E = E and i = j and output_dir = output_dir and dpi = dpi
            and img_format = img_format and quality = quality, OF same]
        by metis
    qed
  qed
  have c3: "\<forall>p. fs p \<noteq> None \<longrightarrow> fs' p \<noteq> None" using r3 by simp
  have c4: "\<forall>p. p \<notin> ?P ` set (i # rest) \<longrightarrow> fs' p = fs p" using r4 by simp
  show ?thesis unfolding pages_written_def using c1 c2 c3 c4 by blast
qed

lemma sequential_loop_first:
  assumes nosep: "CHR ''/'' \<notin> set img_format"
    and "distinct pages"
    and "sequential_loop (\<lambda>i. process_page E pdf_path i output_dir dpi img_format quality)
           n pages w = (w', Inr ())"
  shows "pages_written E pdf_path output_dir dpi img_format quality pages (files w) (files w')
     \<and> dirs w' = dirs w
     \<and> (\<exists>evs. trace w' = trace w @ evs \<and>
          map fst (file_writes evs) = map (written_path pdf_path output_dir img_format) pages)"
  using assms(2,3)
proof (induction pages arbitrary: w)
  case Nil
  then have "w' = w" by (simp add: return_ok_def)
  then show ?case by (simp add: pages_written_Nil)
next
  case (Cons i rest)
  obtain w1 r1 where t: "process_page E pdf_path i output_dir dpi img_format quality w = (w1, r1)"
    by (cases "process_page E pdf_path i output_dir dpi img_format quality w")
  show ?case
  proof (cases r1)
    case (Inl e)
    then show ?thesis using Cons.prems(2) t by (simp add: and_then_def)
  next
    case (Inr m)
    from t[unfolded Inr] obtain data evs1 where
      s: "page_outcome E (files w) pdf_path i output_dir dpi img_format quality = Inr data"
        "files w1 = (files w)(written_path pdf_path output_dir img_format i \<mapsto> data)"
        "dirs w1 = dirs w" "trace w1 = trace w @ evs1"
        "file_writes evs1 = [(written_path pdf_path output_dir img_format i, data)]"
      by (rule process_page_step)
    let ?w2 = "w1\<lparr>trace := trace w1 @ [LogPage (Suc m) n]\<rparr>"
    have l2: "sequential_loop (\<lambda>i. process_page E pdf_path i output_dir dpi img_format quality)
        n rest ?w2 = (w', Inr ())"
      using Cons.prems(2) t Inr by (simp add: and_then_def emit_def)
    have dr: "distinct rest" and ir: "i \<notin> set rest" using Cons.prems(1) by simp_all
    from Cons.IH[OF dr l2] obtain evs where
      ih: "pages_written E pdf_path output_dir dpi img_format quality rest (files ?w2) (files w')"
        "dirs w' = dirs ?w2" "trace w' = trace ?w2 @ evs"
        "map fst (file_writes evs) = map (written_path pdf_path output_dir img_format) rest"
      by blast
    have pw: "pages_written E pdf_path output_dir dpi img_format quality (i # rest)
        (files w) (files w')"
      using nosep s(1) _ ir by (rule pages_written_Cons) (use ih(1) s(2) in simp)
    have tr: "trace w' = trace w @ (evs1 @ [LogPage (Suc m) n] @ evs)"
      using ih(3) s(4) by simp
    have fw: "map fst (file_writes (evs1 @ [LogPage (Suc m) n] @ evs)) =
        map (written_path pdf_path output_dir img_format) (i # rest)"
      using s(5) ih(4) by (simp add: file_writes_append)
    show ?thesis using pw ih(2) s(3) tr fw by auto
  qed
qed

lemma as_completed_loop_raised:
  "as_completed_loop task n (Some e) pages w = (w', r) \<Longrightarrow> r = Inl e"
proof (induction pages arbitrary: w)
  case Nil
  then show ?case by (simp add: raise_def)
next
  case (Cons i rest)
  then show ?case by (cases "task i w") (auto split: sum.splits)
qed

lemma as_completed_loop_first:
  assumes nosep: "CHR ''/'' \<notin> set img_format"
    and "distinct pages"
    and "as_completed_loop (\<lambda>i. process_page E pdf_path i output_dir dpi img_format quality)
           n None pages w = (w', Inr ())"
  shows "pages_written E pdf_path output_dir dpi img_format quality pages (files w) (files w')
     \<and> dirs w' = dirs w
     \<and> (\<exists>evs. trace w' = trace w @ evs \<and>
          map fst (file_writes evs) = map (written_path pdf_path output_dir img_format) pages)"
  using assms(2,3)
proof (induction pages arbitrary: w)
  case Nil
  then have "w' = w" by (simp add: return_ok_def)
  then show ?case by (simp add: pages_written_Nil)
next
  case (Cons i rest)
  obtain w1 r1 where t: "process_page E pdf_path i output_dir dpi img_format quality w = (w1, r1)"
    by (cases "process_page E pdf_path i output_dir dpi img_format quality w")
  show ?case
  proof (cases r1)
    case (Inl e)
    then have "as_completed_loop (\<lambda>i. process_page E pdf_path i output_dir dpi img_format quality)
        n (Some e) rest w1 = (w', Inr ())"
      using Cons.prems(2) t by simp
    then have "Inr () = (Inl e :: error + unit)" by (rule as_completed_loop_raised)
    then show ?thesis by simp
  next
    case (Inr m)
    from t[unfolded Inr] obtain data evs1 where
      s: "page_outcome E (files w) pdf_path i output_dir dpi img_format quality = Inr data"
        "files w1 = (files w)(written_path pdf_path output_dir img_format i \<mapsto> data)"
        "dirs w1 = dirs w" "trace w1 = trace w @ evs1"
        "file_writes evs1 = [(written_path pdf_path output_dir img_format i, data)]"
      by (rule process_page_step)
    let ?w2 = "w1\<lparr>trace := trace w1 @ [LogPage (Suc m) n]\<rparr>"
    have l2: "as_completed_loop (\<lambda>i. process_page E pdf_path i output_dir dpi img_format quality)
        n None rest ?w2 = (w', Inr ())"
      using Cons.prems(2) t Inr by (simp add: and_then_def emit_def)
    have dr: "distinct rest" and ir: "i \<notin> set rest" using Cons.prems(1) by simp_all
    from Cons.IH[OF dr l2] obtain evs where
      ih: "pages_written E pdf_path output_dir dpi img_format quality rest (files ?w2) (files w')"
        "dirs w' = dirs ?w2" "trace w' = trace ?w2 @ evs"
        "map fst (file_writes evs) = map (written_path pdf_path output_dir img_format) rest"
      by blast
    have pw: "pages_written E pdf_path output_dir dpi img_format quality (i # rest)
        (files w) (files w')"
      using nosep s(1) _ ir by (rule pages_written_Cons) (use ih(1) s(2) in simp)
    have tr: "trace w' = trace w @ (evs1 @ [LogPage (Suc m) n] @ evs)"
      using ih(3) s(4) by simp
    have fw: "map fst (file_writes (evs1 @ [LogPage (Suc m) n] @ evs)) =
        map (written_path pdf_path output_dir img_format) (i # rest)"
      using s(5) ih(4) by (simp add: file_writes_append)
    show ?thesis using pw ih(2) s(3) tr fw by auto
  qed
qed

text \<open>A page whose file already holds what the page writes leaves the files as they are.\<close>

lemma process_page_again:
  assumes "page_outcome E (files w) pdf_path i output_dir dpi img_format quality = Inr data"
    and "files w (written_path pdf_path output_dir img_format i) = Some data"
  shows "\<exists>w1 evs. process_page E pdf_path i output_dir dpi img_format quality w = (w1, Inr i)
     \<and> files w1 = files w \<and> dirs w1 = dirs w \<and> trace w1 = trace w @ evs
     \<and> file_writes evs = [(written_path pdf_path output_dir img_format i, data)]"
proof -
  let ?P = "written_path pdf_path output_dir img_format"
  let ?evs = "[Call i, DocOpen (next_handle w) pdf_path, FileWrite (?P i) data,
               DocClose (next_handle w)]"
  let ?w1 = "w\<lparr>files := (files w)(?P i \<mapsto> data), next_handle := Suc (next_handle w),
               trace := trace w @ ?evs\<rparr>"
  have same: "(files w)(?P i \<mapsto> data) = files w" using assms(2) by (rule map_upd_triv)
  have "process_page E pdf_path i output_dir dpi img_format quality w = (?w1, Inr i)"
    unfolding process_page_run assms(1) by simp
  moreover have "files ?w1 = files w" using same by simp
  moreover have "dirs ?w1 = dirs w" "trace ?w1 = trace w @ ?evs"
    "file_writes ?evs = [(?P i, data)]"
    by simp_all
  ultimately show ?thesis by blast
qed

lemma sequential_loop_again:
  assumes "already_written E pdf_path output_dir dpi img_format quality pages (files w)"
  shows "\<exists>w' evs. sequential_loop
        (\<lambda>i. process_page E pdf_path i output_dir dpi img_format quality) n pages w = (w', Inr ())
     \<and> files w' = files w \<and> dirs w' = dirs w \<and> trace w' = trace w @ evs
     \<and> map fst (file_writes evs) = map (written_path pdf_path output_dir img_format) pages
     \<and> (\<forall>x\<in>set (file_writes evs). files w (fst x) = Some (snd x))"
  using assms
proof (induction pages arbitrary: w)
  case Nil
  show ?case by (intro exI[of _ w] exI[of _ "[]"]) (simp add: return_ok_def)
next
  case (Cons i rest)
  let ?P = "written_path pdf_path output_dir img_format"
  from Cons.prems obtain data where
    d: "page_outcome E (files w) pdf_path i output_dir dpi img_format quality = Inr data"
      "files w (?P i) = Some data"
    by (auto simp: already_written_def)
  from process_page_again[OF d] obtain w1 evs1 where
    s: "process_page E pdf_path i output_dir dpi img_format quality w = (w1, Inr i)"
      "files w1 = files w" "dirs w1 = dirs w" "trace w1 = trace w @ evs1"
      "file_writes evs1 = [(?P i, data)]"
    by blast
  let ?w2 = "w1\<lparr>trace := trace w1 @ [LogPage (Suc i) n]\<rparr>"
  have aw: "already_written E pdf_path output_dir dpi img_format quality rest (files ?w2)"
    using Cons.prems s(2) by (simp add: already_written_def)
  from Cons.IH[OF aw] obtain w' evs where
    ih: "sequential_loop (\<lambda>i. process_page E pdf_path i output_dir dpi img_format quality)
          n rest ?w2 = (w', Inr ())"
      "files w' = files ?w2" "dirs w' = dirs ?w2" "trace w' = trace ?w2 @ evs"
      "map fst (file_writes evs) = map ?P rest"
      "\<forall>x\<in>set (file_writes evs). files ?w2 (fst x) = Some (snd x)"
    by blast
  have run: "sequential_loop (\<lambda>i. process_page E pdf_path i output_dir dpi img_format quality)
      n (i # rest) w = (w', Inr ())"
    using s(1) ih(1) by (simp add: and_then_def emit_def)
  have tr: "trace w' = trace w @ (evs1 @ [LogPage (Suc i) n] @ evs)" using ih(4) s(4) by simp
  have m: "map fst (file_writes (evs1 @ [LogPage (Suc i) n] @ evs)) = map ?P (i # rest)"
    using s(5) ih(5) by (simp add: file_writes_append)
  have a: "\<forall>x\<in>set (file_writes (evs1 @ [LogPage (Suc i) n] @ evs)).
      files w (fst x) = Some (snd x)"
    using s(5) ih(6) s(2) d(2) by (simp add: file_writes_append)
  have f: "files w' = files w" "dirs w' = dirs w" using ih(2,3) s(2,3) by simp_all
  show ?case using run f tr m a by blast
qed

lemma as_completed_loop_again:
  assumes "already_written E pdf_path output_dir dpi img_format quality pages (files w)"
  shows "\<exists>w' evs. as_completed_loop
        (\<lambda>i. process_page E pdf_path i output_dir dpi img_format quality) n None pages w
          = (w', Inr ())
     \<and> files w' = files w \<and> dirs w' = dirs w \<and> trace w' = trace w @ evs
     \<and> map fst (file_writes evs) = map (written_path pdf_path output_dir img_format) pages
     \<and> (\<forall>x\<in>set (file_writes evs). files w (fst x) = Some (snd x))"
  using assms
proof (induction pages arbitrary: w)
  case Nil
  show ?case by (intro exI[of _ w] exI[of _ "[]"]) (simp add: return_ok_def)
next
  case (Cons i rest)
  let ?P = "written_path pdf_path output_dir img_format"
  from Cons.prems obtain data where
    d: "page_outcome E (files w) pdf_path i output_dir dpi img_format quality = Inr data"
      "files w (?P i) = Some data"
    by (auto simp: already_written_def)
  from process_page_again[OF d] obtain w1 evs1 where
    s: "process_page E pdf_path i output_dir dpi img_format quality w = (w1, Inr i)"
      "files w1 = files w" "dirs w1 = dirs w" "trace w1 = trace w @ evs1"
      "file_writes evs1 = [(?P i, data)]"
    by blast
  let ?w2 = "w1\<lparr>trace := trace w1 @ [LogPage (Suc i) n]\<rparr>"
  have aw: "already_written E pdf_path output_dir dpi img_format quality rest (files ?w2)"
    using Cons.prems s(2) by (simp add: already_written_def)
  from Cons.IH[OF aw] obtain w' evs where
    ih: "as_completed_loop (\<lambda>i. process_page E pdf_path i output_dir dpi img_format quality)
          n None rest ?w2 = (w', Inr ())"
      "files w' = files ?w2" "dirs w' = dirs ?w2" "trace w' = trace ?w2 @ evs"
      "map fst (file_writes evs) = map ?P rest"
      "\<forall>x\<in>set (file_writes evs). files ?w2 (fst x) = Some (snd x)"
    by blast
  have run: "as_completed_loop (\<lambda>i. process_page E pdf_path i output_dir dpi img_format quality)
      n None (i # rest) w = (w', Inr ())"
    using s(1) ih(1) by (simp add: and_then_def emit_def)
  have tr: "trace w' = trace w @ (evs1 @ [LogPage (Suc i) n] @ evs)" using ih(4) s(4) by simp
  have m: "map fst (file_writes (evs1 @ [LogPage (Suc i) n] @ evs)) = map ?P (i # rest)"
    using s(5) ih(5) by (simp add: file_writes_append)
  have a: "\<forall>x\<in>set (file_writes (evs1 @ [LogPage (Suc i) n] @ evs)).
      files w (fst x) = Some (snd x)"
    using s(5) ih(6) s(2) d(2) by (simp add: file_writes_append)
  have f: "files w' = files w" "dirs w' = dirs w" using ih(2,3) s(2,3) by simp_all
  show ?case using run f tr m a by blast
qed

lemma page_order_set: "set (page_order parallel sched n) = {0..<n}"
  by (simp add: page_order_def completion_order_set)

lemma page_order_distinct: "distinct (page_order parallel sched n)"
  by (simp add: page_order_def completion_order_distinct)

lemma pool_create_ok:
  "\<not> (\<exists>j. max_workers = Some j \<and> j \<le> 0) \<Longrightarrow> pool_create max_workers w = (w, Inr ())"
  by (cases max_workers) (auto simp: pool_create_def return_ok_def)

lemma pool_create_bad:
  "\<exists>j. max_workers = Some j \<and> j \<le> 0 \<Longrightarrow> pool_create max_workers w = (w, Inl PoolError)"
  by (auto simp: pool_create_def raise_def)

lemma run_pages_first:
  assumes nosep: "CHR ''/'' \<notin> set img_format"
    and run: "run_pages E sched pdf_path output_dir dpi parallel max_workers img_format quality n w
           = (w', Inr ())"
  shows "(parallel \<longrightarrow> \<not> (\<exists>j. max_workers = Some j \<and> j \<le> 0))
     \<and> pages_written E pdf_path output_dir dpi img_format quality (page_order parallel sched n)
          (files w) (files w')
     \<and> dirs w' = dirs w
     \<and> (\<exists>evs. trace w' = trace w @ evs \<and>
          map fst (file_writes evs) =
            map (written_path pdf_path output_dir img_format) (page_order parallel sched n))"
proof (cases parallel)
  case False
  obtain w1 r1 where l: "sequential_loop
      (\<lambda>i. process_page E pdf_path i output_dir dpi img_format quality) n [0..<n] w = (w1, r1)"
    by (cases "sequential_loop
      (\<lambda>i. process_page E pdf_path i output_dir dpi img_format quality) n [0..<n] w")
  have r1: "r1 = Inr ()" and w': "w' = w1\<lparr>trace := trace w1 @ [LogTotal]\<rparr>"
    using run False l by (cases r1; simp add: run_pages_def and_then_def emit_def)+
  from sequential_loop_first[OF nosep _ l[unfolded r1]] obtain evs where
    f: "pages_written E pdf_path output_dir dpi img_format quality [0..<n] (files w) (files w1)"
      "dirs w1 = dirs w" "trace w1 = trace w @ evs"
      "map fst (file_writes evs) = map (written_path pdf_path output_dir img_format) [0..<n]"
    by auto
  have "trace w' = trace w @ (evs @ [LogTotal])" using w' f(3) by simp
  moreover have "map fst (file_writes (evs @ [LogTotal])) =
      map (written_path pdf_path output_dir img_format) [0..<n]"
    using f(4) by (simp add: file_writes_append)
  ultimately show ?thesis using False f(1,2) w' by (auto simp: page_order_def simp del: upt_Suc)
next
  case True
  have ok: "\<not> (\<exists>j. max_workers = Some j \<and> j \<le> 0)"
  proof
    assume "\<exists>j. max_workers = Some j \<and> j \<le> 0"
    then have "pool_create max_workers w = (w, Inl PoolError)" by (rule pool_create_bad)
    then show False using run True by (simp add: run_pages_def and_then_def)
  qed
  let ?w0 = "w\<lparr>trace := trace w @ map Submit [0..<n]\<rparr>"
  let ?order = "completion_order sched [0..<n]"
  obtain w1 r1 where l: "as_completed_loop
      (\<lambda>i. process_page E pdf_path i output_dir dpi img_format quality) n None ?order ?w0
      = (w1, r1)"
    by (cases "as_completed_loop
      (\<lambda>i. process_page E pdf_path i output_dir dpi img_format quality) n None ?order ?w0")
  have r1: "r1 = Inr ()" and w': "w' = w1\<lparr>trace := trace w1 @ [LogTotal]\<rparr>"
    using run True l pool_create_ok[OF ok, of w]
    by (cases r1; simp add: run_pages_def and_then_def emit_def submit_all_def)+
  have d: "distinct ?order" by (rule completion_order_distinct) simp
  from as_completed_loop_first[OF nosep d l[unfolded r1]] obtain evs where
    f: "pages_written E pdf_path output_dir dpi img_format quality ?order (files ?w0) (files w1)"
      "dirs w1 = dirs ?w0" "trace w1 = trace ?w0 @ evs"
      "map fst (file_writes evs) = map (written_path pdf_path output_dir img_format) ?order"
    by auto
  have sw: "file_writes (map Submit [0..<n]) = []" by (induction n) (simp_all add: file_writes_append)
  have "trace w' = trace w @ (map Submit [0..<n] @ evs @ [LogTotal])" using w' f(3) by simp
  moreover have "map fst (file_writes (map Submit [0..<n] @ evs @ [LogTotal])) =
      map (written_path pdf_path output_dir img_format) ?order"
    using f(4) sw by (simp add: file_writes_append)
  ultimately show ?thesis using True ok f(1,2) w'
    by (auto simp: page_order_def simp del: upt_Suc)
qed

lemma run_pages_again:
  assumes ok: "parallel \<longrightarrow> \<not> (\<exists>j. max_workers = Some j \<and> j \<le> 0)"
    and aw: "already_written E pdf_path output_dir dpi img_format quality
               (page_order parallel sched n) (files w)"
  shows "\<exists>w' evs.
       run_pages E sched pdf_path output_dir dpi parallel max_workers img_format quality n w
         = (w', Inr ())
     \<and> files w' = files w \<and> dirs w' = dirs w \<and> trace w' = trace w @ evs
     \<and> map fst (file_writes evs) =
         map (written_path pdf_path output_dir img_format) (page_order parallel sched n)
     \<and> (\<forall>x\<in>set (file_writes evs). files w (fst x) = Some (snd x))"
proof (cases parallel)
  case False
  have aw': "already_written E pdf_path output_dir dpi img_format quality [0..<n] (files w)"
    using aw False by (simp add: page_order_def)
  from sequential_loop_again[OF aw', of n] obtain w1 evs where
    l: "sequential_loop (\<lambda>i. process_page E pdf_path i output_dir dpi img_format quality)
          n [0..<n] w = (w1, Inr ())"
      "files w1 = files w" "dirs w1 = dirs w" "trace w1 = trace w @ evs"
      "map fst (file_writes evs) = map (written_path pdf_path output_dir img_format) [0..<n]"
      "\<forall>x\<in>set (file_writes evs). files w (fst x) = Some (snd x)"
    by blast
  let ?w' = "w1\<lparr>trace := trace w1 @ [LogTotal]\<rparr>"
  have run: "run_pages E sched pdf_path output_dir dpi parallel max_workers img_format quality n w
      = (?w', Inr ())"
    using False l(1) by (simp add: run_pages_def and_then_def emit_def)
  have tr: "trace ?w' = trace w @ (evs @ [LogTotal])" using l(4) by simp
  have fw: "file_writes (evs @ [LogTotal]) = file_writes evs" by (simp add: file_writes_append)
  have po: "page_order parallel sched n = [0..<n]" using False by (simp add: page_order_def)
  show ?thesis
    using run l(2,3,5,6) tr unfolding po
    by (intro exI[of _ ?w'] exI[of _ "evs @ [LogTotal]"]) (simp add: fw del: upt_Suc)
next
  case True
  let ?w0 = "w\<lparr>trace := trace w @ map Submit [0..<n]\<rparr>"
  let ?order = "completion_order sched [0..<n]"
  have po: "page_order parallel sched n = ?order" using True by (simp add: page_order_def)
  have aw': "already_written E pdf_path output_dir dpi img_format quality ?order (files ?w0)"
    using aw unfolding po by simp
  from as_completed_loop_again[OF aw', of n] obtain w1 evs where
    l: "as_completed_loop (\<lambda>i. process_page E pdf_path i output_dir dpi img_format quality)
          n None ?order ?w0 = (w1, Inr ())"
      "files w1 = files ?w0" "dirs w1 = dirs ?w0" "trace w1 = trace ?w0 @ evs"
      "map fst (file_writes evs) = map (written_path pdf_path output_dir img_format) ?order"
      "\<forall>x\<in>set (file_writes evs). files ?w0 (fst x) = Some (snd x)"
    by blast
  let ?w' = "w1\<lparr>trace := trace w1 @ [LogTotal]\<rparr>"
  have pool: "pool_create max_workers w = (w, Inr ())" using ok True by (intro pool_create_ok) simp
  have run: "run_pages E sched pdf_path output_dir dpi parallel max_workers img_format quality n w
      = (?w', Inr ())"
    using True l(1) pool by (simp add: run_pages_def and_then_def emit_def submit_all_def)
  have sw: "file_writes (map Submit [0..<n]) = []" by (induction n) (simp_all add: file_writes_append)
  have tr: "trace ?w' = trace w @ (map Submit [0..<n] @ evs @ [LogTotal])" using l(4) by simp
  have fw: "file_writes (map Submit [0..<n] @ evs @ [LogTotal]) = file_writes evs"
    using sw by (simp add: file_writes_append)
  show ?thesis
    using run l(2,3,5,6) tr unfolding po
    by (intro exI[of _ ?w'] exI[of _ "map Submit [0..<n] @ evs @ [LogTotal]"])
      (simp add: fw del: upt_Suc)
qed

lemma pages_written_again:
  assumes "pages_written E pdf_path output_dir dpi img_format quality pages fs fs'"
    and "set pages' = set pages"
  shows "already_written E pdf_path output_dir dpi img_format quality pages' fs'"
  unfolding already_written_def
proof
  fix i assume "i \<in> set pages'"
  then have i: "i \<in> set pages" using assms(2) by simp
  have same: "fs' pdf_path = fs pdf_path" using assms(1) by (simp add: pages_written_def)
  from assms(1) i obtain data where
    "page_outcome E fs pdf_path i output_dir dpi img_format quality = Inr data"
    "fs' (written_path pdf_path output_dir img_format i) = Some data"
    unfolding pages_written_def by blast
  then show "\<exists>data. page_outcome E fs' pdf_path i output_dir dpi img_format quality = Inr data \<and>
      fs' (written_path pdf_path output_dir img_format i) = Some data"
    using page_outcome_cong[where fs = fs' and fs' = fs and pdf_path = pdf_path
        and E = E and i = i and output_dir = output_dir and dpi = dpi
        and img_format = img_format and quality = quality, OF same]
    by metis
qed

lemma clash_written_path:
  "written_path ''out/s_1.q/s.pdf'' ''out'' ''q/s.pdf'' 0 = ''out/s_1.q/s.pdf''"
  by (simp add: written_path_def named_output_def splitext_def basename_def rfind_def
      str_small digit_char_def path_join_def lower_def lower_char_def)

lemma clash_page_outcome:
  assumes "fs ''out/s_1.q/s.pdf'' = Some [37, 80, 68, 70, 49]"
  shows "page_outcome sample_env fs ''out/s_1.q/s.pdf'' 0 ''out'' 150 ''q/s.pdf'' 80 =
    Inr [87, 80, 7, 0, 0]"
proof -
  have p: "fitz_parse sample_env [37, 80, 68, 70, 49] = Some [7]"
    by (simp add: sample_env_def)
  have r: "fitz_render sample_env ([7] ! 0) 150 =
      Some \<lparr>width = 1, height = 1, samples = [7, 0, 0]\<rparr>"
    by (simp add: sample_env_def)
  have e: "pil_encode sample_env \<lparr>width = 1, height = 1, samples = [7, 0, 0]\<rparr>
      (SaveWEBP 80 0) = Some [87, 80, 7, 0, 0]"
    by (simp add: sample_env_def)
  have cw: "can_write sample_env ''out/s_1.q/s.pdf''" by (simp add: sample_env_def)
  have l: "lower ''q/s.pdf'' = ''q/s.pdf''" by (simp add: lower_def lower_char_def)
  show ?thesis
    using assms p r e cw
    by (simp add: page_outcome_def write_outcome_def save_args_for_def clash_written_path l)
qed

lemma clash_first_run:
  "pdf_to_jpeg sample_env [] ''out/s_1.q/s.pdf'' ''out'' 150 False None ''q/s.pdf'' 80 clash_world =
     (clash_world\<lparr>files := [''out/s_1.q/s.pdf'' \<mapsto> [87, 80, 7, 0, 0]], next_handle := 2,
        trace := [DocOpen 0 ''out/s_1.q/s.pdf'', DocClose 0, LogStart 1 False,
          Call 0, DocOpen 1 ''out/s_1.q/s.pdf'',
          FileWrite ''out/s_1.q/s.pdf'' [87, 80, 7, 0, 0], DocClose 1, LogPage 1 1,
          LogTotal]\<rparr>, Inr ())"
proof -
  have f: "files clash_world ''out/s_1.q/s.pdf'' = Some [37, 80, 68, 70, 49]"
    "''out'' \<in> dirs clash_world" "next_handle clash_world = 0" "trace clash_world = []"
    "files clash_world = [''out/s_1.q/s.pdf'' \<mapsto> [37, 80, 68, 70, 49]]"
    by (simp_all add: clash_world_def)
  have p: "fitz_parse sample_env [37, 80, 68, 70, 49] = Some [7]"
    by (simp add: sample_env_def)
  show ?thesis
    unfolding pdf_to_jpeg_run probe_and_run_run
    by (simp add: f p run_pages_def and_then_def emit_def return_ok_def process_page_run
        clash_page_outcome clash_written_path)
qed

lemma clash_second_run:
  "snd (pdf_to_jpeg sample_env [] ''out/s_1.q/s.pdf'' ''out'' 150 False None ''q/s.pdf'' 80
     (fst (pdf_to_jpeg sample_env [] ''out/s_1.q/s.pdf'' ''out'' 150 False None ''q/s.pdf'' 80
        clash_world))) = Inl DocumentOpenError"
proof -
  let ?w1 = "clash_world\<lparr>files := [''out/s_1.q/s.pdf'' \<mapsto> [87, 80, 7, 0, 0]], next_handle := 2,
        trace := [DocOpen 0 ''out/s_1.q/s.pdf'', DocClose 0, LogStart 1 False,
          Call 0, DocOpen 1 ''out/s_1.q/s.pdf'',
          FileWrite ''out/s_1.q/s.pdf'' [87, 80, 7, 0, 0], DocClose 1, LogPage 1 1,
          LogTotal]\<rparr>"
  have d: "''out'' \<in> dirs ?w1" by (simp add: clash_world_def)
  have f: "files ?w1 ''out/s_1.q/s.pdf'' = Some [87, 80, 7, 0, 0]" by simp
  have p: "fitz_parse sample_env [87, 80, 7, 0, 0] = None" by (simp add: sample_env_def)
  have "pdf_to_jpeg sample_env [] ''out/s_1.q/s.pdf'' ''out'' 150 False None ''q/s.pdf'' 80 ?w1
      = (?w1, Inl DocumentOpenError)"
    unfolding pdf_to_jpeg_run probe_and_run_run f using d p by simp
  then show ?thesis by (simp only: clash_first_run fst_conv snd_conv)
qed

text \<open>
  Claim C8 says that a second run with the same arguments repeats the first on the file
  system. The page file's name is built from the format string as it is, so a format
  with a path separator can name the PDF itself: for the one-page \<open>out/s_1.q/s.pdf\<close>,
  output directory \<open>out\<close> and format \<open>q/s.pdf\<close>, page 1 is saved (as WEBP) to
  \<open>out/s_1.q/s.pdf\<close>. The first run returns, having replaced its input; the second run
  cannot open it.
\<close>

theorem c8_counterexample:
  "snd (pdf_to_jpeg sample_env [] ''out/s_1.q/s.pdf'' ''out'' 150 False None ''q/s.pdf'' 80
     clash_world) = Inr ()
   \<and> snd (pdf_to_jpeg sample_env [] ''out/s_1.q/s.pdf'' ''out'' 150 False None ''q/s.pdf'' 80
     (fst (pdf_to_jpeg sample_env [] ''out/s_1.q/s.pdf'' ''out'' 150 False None ''q/s.pdf'' 80
        clash_world))) = Inl DocumentOpenError"
  using clash_second_run by (simp add: clash_first_run)

text \<open>
  Claim C8, amended. Let the format string hold no path separator (as the five supported
  formats do) and let a run of \<open>pdf_to_jpeg\<close> return. Then a second run with the same
  arguments, from the state the first one left, returns as well, whatever order the
  pool completes the pages in, and leaves files and directories exactly as they were:
  every file it writes already held the bytes it writes, it writes the same file names
  as the first run, and different pages have different file names.
\<close>

theorem c8_second_run_changes_nothing:
  assumes nosep: "CHR ''/'' \<notin> set img_format"
    and first: "pdf_to_jpeg E sched1 pdf_path output_dir dpi parallel max_workers img_format
                  quality w = (w1, Inr ())"
  shows "\<exists>w2. pdf_to_jpeg E sched2 pdf_path output_dir dpi parallel max_workers img_format
                 quality w1 = (w2, Inr ())
           \<and> files w2 = files w1 \<and> dirs w2 = dirs w1
           \<and> (\<forall>x\<in>set (file_writes (new_events w1 w2)). files w1 (fst x) = Some (snd x))
           \<and> set (map fst (file_writes (new_events w1 w2)))
               = set (map fst (file_writes (new_events w w1)))
           \<and> inj (written_path pdf_path output_dir img_format)"
proof -
  let ?P = "written_path pdf_path output_dir img_format"
  from pdf_to_jpeg_stages[OF first] obtain content doc w0 pre where
    s: "files w pdf_path = Some content" "fitz_parse E content = Some doc"
      "trace w0 = trace w @ pre" "file_writes pre = []" "files w0 = files w"
      "output_dir \<in> dirs w0 \<or> files w0 output_dir \<noteq> None"
      "run_pages E sched1 pdf_path output_dir dpi parallel max_workers img_format quality
         (length doc) w0 = (w1, Inr ())"
    by auto
  let ?n = "length doc"
  from run_pages_first[OF nosep s(7)] obtain evsA where
    a: "parallel \<longrightarrow> \<not> (\<exists>j. max_workers = Some j \<and> j \<le> 0)"
      "pages_written E pdf_path output_dir dpi img_format quality (page_order parallel sched1 ?n)
         (files w0) (files w1)"
      "dirs w1 = dirs w0" "trace w1 = trace w0 @ evsA"
      "map fst (file_writes evsA) = map ?P (page_order parallel sched1 ?n)"
    by blast
  have keep: "files w1 pdf_path = Some content" "\<forall>p. files w0 p \<noteq> None \<longrightarrow> files w1 p \<noteq> None"
    using a(2) s(1,5) by (simp_all add: pages_written_def)
  have ex: "output_dir \<in> dirs w1 \<or> files w1 output_dir \<noteq> None"
    using s(6) a(3) keep(2) by auto
  let ?p = "[DocOpen (next_handle w1) pdf_path, DocClose (next_handle w1), LogStart ?n parallel]"
  let ?w1p = "w1\<lparr>next_handle := Suc (next_handle w1), trace := trace w1 @ ?p\<rparr>"
  have second: "pdf_to_jpeg E sched2 pdf_path output_dir dpi parallel max_workers img_format
      quality w1 =
      run_pages E sched2 pdf_path output_dir dpi parallel max_workers img_format quality ?n ?w1p"
    unfolding pdf_to_jpeg_run probe_and_run_run using ex keep(1) s(2) by simp
  have aw: "already_written E pdf_path output_dir dpi img_format quality
      (page_order parallel sched2 ?n) (files ?w1p)"
    using pages_written_again[OF a(2), of "page_order parallel sched2 ?n"]
    by (simp add: page_order_set)
  from run_pages_again[OF a(1) aw] obtain w2 evsB where
    b: "run_pages E sched2 pdf_path output_dir dpi parallel max_workers img_format quality ?n ?w1p
          = (w2, Inr ())"
      "files w2 = files ?w1p" "dirs w2 = dirs ?w1p" "trace w2 = trace ?w1p @ evsB"
      "map fst (file_writes evsB) = map ?P (page_order parallel sched2 ?n)"
      "\<forall>x\<in>set (file_writes evsB). files ?w1p (fst x) = Some (snd x)"
    by blast
  have ne2: "file_writes (new_events w1 w2) = file_writes evsB"
    using b(4) by (simp add: new_events_def file_writes_append)
  have ne1: "file_writes (new_events w w1) = file_writes evsA"
    using a(4) s(3,4) by (simp add: new_events_def file_writes_append)
  have names: "set (map fst (file_writes evsB)) = set (map fst (file_writes evsA))"
    unfolding b(5) a(5) by (simp add: page_order_set)
  have inj: "inj ?P" by (rule injI) (rule written_path_inj)
  have c0: "pdf_to_jpeg E sched2 pdf_path output_dir dpi parallel max_workers img_format
      quality w1 = (w2, Inr ())"
    using second b(1) by simp
  have c1: "\<forall>x\<in>set (file_writes (new_events w1 w2)). files w1 (fst x) = Some (snd x)"
    using b(6) ne2 by simp
  have c2: "set (map fst (file_writes (new_events w1 w2)))
      = set (map fst (file_writes (new_events w w1)))"
    using names ne1 ne2 by simp
  have c3: "files w2 = files w1" "dirs w2 = dirs w1" using b(2,3) by simp_all
  show ?thesis using c0 c1 c2 c3 inj by blast
qed

theorem c8_witness:
  "CHR ''/'' \<notin> set ''png''
   \<and> snd (pdf_to_jpeg sample_env [5, 1] ''sample.pdf'' ''out'' 150 True (Some 2) ''png'' 80
        sample_world) = Inr ()
   \<and> (\<exists>w2. pdf_to_jpeg sample_env [0, 0] ''sample.pdf'' ''out'' 150 True (Some 2) ''png'' 80
          (fst (pdf_to_jpeg sample_env [5, 1] ''sample.pdf'' ''out'' 150 True (Some 2) ''png'' 80
             sample_world)) = (w2, Inr ())
        \<and> files w2 =
            files (fst (pdf_to_jpeg sample_env [5, 1] ''sample.pdf'' ''out'' 150 True (Some 2)
              ''png'' 80 sample_world))
        \<and> dirs w2 =
            dirs (fst (pdf_to_jpeg sample_env [5, 1] ''sample.pdf'' ''out'' 150 True (Some 2)
              ''png'' 80 sample_world)))"
proof -
  let ?run = "pdf_to_jpeg sample_env [5, 1] ''sample.pdf'' ''out'' 150 True (Some 2) ''png'' 80
    sample_world"
  have nosep: "CHR ''/'' \<notin> set ''png''" by simp
  have r: "snd ?run = Inr ()" unfolding sample_run_parallel by simp
  have run: "?run = (fst ?run, Inr ())" using r by (metis prod.collapse)
  show ?thesis
    using c8_second_run_changes_nothing[OF nosep run, of "[0, 0]"] nosep r by blast
qed

end
